theory Spec2Isabelle
  imports Main "HOL-Library.Sublist"
begin

section \<open>Python text primitives\<close>

text \<open>
  Text is modelled as \<^typ>\<open>string\<close>: a Python \<^verbatim>\<open>str\<close> all of whose code points lie
  below 256, one \<^typ>\<open>char\<close> per code point. On such text the functions of this
  section compute what CPython's \<^verbatim>\<open>str\<close> methods compute.
\<close>

definition isspace :: "char \<Rightarrow> bool" where
  \<comment> \<open>the characters \<^verbatim>\<open>str.strip()\<close> removes and \<^verbatim>\<open>\s\<close> matches\<close>
  "isspace c = (let n = (of_char c :: nat) in
     (9 \<le> n \<and> n \<le> 13) \<or> (28 \<le> n \<and> n \<le> 32) \<or> n = 133 \<or> n = 160)"

definition isdigit :: "char \<Rightarrow> bool" where
  \<comment> \<open>the characters \<^verbatim>\<open>\d\<close> matches\<close>
  "isdigit c = (let n = (of_char c :: nat) in 48 \<le> n \<and> n \<le> 57)"

definition is_upper :: "char \<Rightarrow> bool" where
  \<comment> \<open>the characters that \<^verbatim>\<open>str.lower()\<close> changes: A to Z, and the accented capitals
      U+00C0 to U+00DE without the multiplication sign U+00D7\<close>
  "is_upper c = (let n = (of_char c :: nat) in
     (65 \<le> n \<and> n \<le> 90) \<or> (192 \<le> n \<and> n \<le> 214) \<or> (216 \<le> n \<and> n \<le> 222))"

definition lower_char :: "char \<Rightarrow> char" where
  "lower_char c = (if is_upper c then char_of ((of_char c :: nat) + 32) else c)"

definition lower :: "string \<Rightarrow> string" where
  \<comment> \<open>\<^verbatim>\<open>s.lower()\<close>\<close>
  "lower s = map lower_char s"

definition strip :: "string \<Rightarrow> string" where
  \<comment> \<open>\<^verbatim>\<open>s.strip()\<close>\<close>
  "strip s = rev (dropWhile isspace (rev (dropWhile isspace s)))"

fun py_in :: "string \<Rightarrow> string \<Rightarrow> bool" where
  \<comment> \<open>\<^verbatim>\<open>needle in s\<close> for two strings\<close>
  "py_in needle [] = (needle = [])"
| "py_in needle (c # cs) = (prefix needle (c # cs) \<or> py_in needle cs)"

function split :: "string \<Rightarrow> string \<Rightarrow> string \<Rightarrow> string list" where
  \<comment> \<open>\<^verbatim>\<open>s.split(sep)\<close> is \<open>split sep [] s\<close>, for a non-empty \<open>sep\<close>; the second argument
      is the piece being read\<close>
  "split sep acc [] = [acc]"
| "split sep acc (c # cs) =
     (if sep \<noteq> [] \<and> prefix sep (c # cs)
      then acc # split sep [] (drop (length sep) (c # cs))
      else split sep (acc @ [c]) cs)"
  by pat_completeness auto
termination
  by (relation "measure (\<lambda>(sep, acc, s). length s)") auto

function replace :: "string \<Rightarrow> string \<Rightarrow> string \<Rightarrow> string" where
  \<comment> \<open>\<^verbatim>\<open>s.replace(old, new)\<close> is \<open>replace old new s\<close>, for a non-empty \<open>old\<close>\<close>
  "replace old new [] = []"
| "replace old new (c # cs) =
     (if old \<noteq> [] \<and> prefix old (c # cs)
      then new @ replace old new (drop (length old) (c # cs))
      else c # replace old new cs)"
  by pat_completeness auto
termination
  by (relation "measure (\<lambda>(old, new, s). length s)") auto

fun join :: "string \<Rightarrow> string list \<Rightarrow> string" where
  \<comment> \<open>\<^verbatim>\<open>sep.join(xs)\<close>\<close>
  "join sep [] = []"
| "join sep [x] = x"
| "join sep (x # y # ys) = x @ sep @ join sep (y # ys)"

datatype error = TypeError | AttributeError | ValueError

definition decimal_value :: "string \<Rightarrow> int" where
  \<comment> \<open>the integer that a string of decimal digits denotes\<close>
  "decimal_value s = foldl (\<lambda>a c. 10 * a + (int (of_char c) - 48)) 0 s"

definition int_max_str_digits :: nat where
  \<comment> \<open>\<^verbatim>\<open>sys.get_int_max_str_digits()\<close>, as the interpreter sets it by default\<close>
  "int_max_str_digits = 4300"

definition py_int :: "string \<Rightarrow> error + int" where
  \<comment> \<open>\<^verbatim>\<open>int(s)\<close> on a non-empty string of decimal digits, which is what \<^verbatim>\<open>(\d+)\<close>
      captures: the integer is unbounded, but the conversion raises \<^verbatim>\<open>ValueError\<close> on a
      string of more digits than the limit, leading zeros counted\<close>
  "py_int s =
     (if length s > int_max_str_digits then Inl ValueError else Inr (decimal_value s))"

section \<open>Regular expressions\<close>

text \<open>
  Every pattern of the source is a sequence of single-character items, each with a
  quantifier, and of capture groups that do not nest. \<open>rmatch\<close> is \<^verbatim>\<open>re.match\<close> of
  a backtracking matcher: a greedy item tries the longest run first, a lazy one the
  shortest, and the first alternative for which the rest of the pattern matches wins.
\<close>

datatype cclass =
    Lit char            \<comment> \<open>a literal character\<close>
  | LitI char           \<comment> \<open>a literal character under \<^verbatim>\<open>re.IGNORECASE\<close>\<close>
  | NoneOf "char list"  \<comment> \<open>\<^verbatim>\<open>[^...]\<close>\<close>
  | OneOf "char list"   \<comment> \<open>\<^verbatim>\<open>[...]\<close>\<close>
  | Digit               \<comment> \<open>\<^verbatim>\<open>\d\<close>\<close>
  | Space               \<comment> \<open>\<^verbatim>\<open>\s\<close>\<close>
  | Dot                 \<comment> \<open>\<^verbatim>\<open>.\<close>, any character but a newline\<close>

datatype quant =
    Once | Opt | Star | Plus | LazyStar | Rep nat nat

datatype atom = Atom cclass quant | GroupOpen | GroupClose

type_synonym regex = "atom list"

fun accepts :: "cclass \<Rightarrow> char \<Rightarrow> bool" where
  "accepts (Lit a) c = (c = a)"
| "accepts (LitI a) c = (lower_char c = lower_char a)"
| "accepts (NoneOf cs) c = (c \<notin> set cs)"
| "accepts (OneOf cs) c = (c \<in> set cs)"
| "accepts Digit c = isdigit c"
| "accepts Space c = isspace c"
| "accepts Dot c = (c \<noteq> CHR 0x0A)"

fun downto :: "nat \<Rightarrow> nat \<Rightarrow> nat list" where
  \<comment> \<open>\<open>lo + n, ..., lo\<close>\<close>
  "downto lo 0 = [lo]"
| "downto lo (Suc n) = (lo + Suc n) # downto lo n"

fun counts :: "quant \<Rightarrow> nat \<Rightarrow> nat list" where
  \<comment> \<open>the repetition counts to try, in order, when \<open>k\<close> characters are available\<close>
  "counts Once k = (if 1 \<le> k then [1] else [])"
| "counts Opt k = (if 1 \<le> k then [1, 0] else [0])"
| "counts Star k = downto 0 k"
| "counts Plus k = (if 1 \<le> k then downto 1 (k - 1) else [])"
| "counts LazyStar k = rev (downto 0 k)"
| "counts (Rep lo hi) k = (if lo \<le> min k hi then downto lo (min k hi - lo) else [])"

fun first_some :: "'a option list \<Rightarrow> 'a option" where
  "first_some [] = None"
| "first_some (None # xs) = first_some xs"
| "first_some (Some x # xs) = Some x"

fun rmatch :: "regex \<Rightarrow> string \<Rightarrow> string option \<Rightarrow> string list \<Rightarrow> (string list \<times> string) option" where
  \<comment> \<open>the groups captured and the text left after a match at the start of the text;
      the third argument is the text of the group that is open, if one is\<close>
  "rmatch [] s cur groups = Some (groups, s)"
| "rmatch (GroupOpen # r) s cur groups = rmatch r s (Some []) groups"
| "rmatch (GroupClose # r) s cur groups =
     rmatch r s None (groups @ [case cur of None \<Rightarrow> [] | Some g \<Rightarrow> g])"
| "rmatch (Atom c q # r) s cur groups =
     first_some (map (\<lambda>n. rmatch r (drop n s) (map_option (\<lambda>g. g @ take n s) cur) groups)
                     (counts q (length (takeWhile (accepts c) s))))"

fun search :: "regex \<Rightarrow> string \<Rightarrow> string list option" where
  \<comment> \<open>\<^verbatim>\<open>re.search(r, s)\<close>: the groups of the leftmost match\<close>
  "search r [] = map_option fst (rmatch r [] None [])"
| "search r (c # cs) =
     (case rmatch r (c # cs) None [] of
        Some (groups, rest) \<Rightarrow> Some groups
      | None \<Rightarrow> search r cs)"

function findall :: "regex \<Rightarrow> string \<Rightarrow> string list list" where
  \<comment> \<open>\<^verbatim>\<open>re.findall(r, s)\<close>: the groups of the successive non-overlapping matches; the
      scan goes on where a match ended (one character on after a match of no
      character, which no pattern of the source has)\<close>
  "findall r [] = (case rmatch r [] None [] of Some (groups, rest) \<Rightarrow> [groups] | None \<Rightarrow> [])"
| "findall r (c # cs) =
     (case rmatch r (c # cs) None [] of
        Some (groups, rest) \<Rightarrow>
          groups # (if length rest < length (c # cs) then findall r rest else findall r cs)
      | None \<Rightarrow> findall r cs)"
  by pat_completeness auto
termination
  by (relation "measure (\<lambda>(r, s). length s)") auto

function re_sub :: "regex \<Rightarrow> string \<Rightarrow> string" where
  \<comment> \<open>\<^verbatim>\<open>re.sub(r, '', s)\<close>: the text with every match deleted, found as \<open>findall\<close>
      finds them\<close>
  "re_sub r [] = []"
| "re_sub r (c # cs) =
     (case rmatch r (c # cs) None [] of
        Some (groups, rest) \<Rightarrow>
          (if length rest < length (c # cs) then re_sub r rest else c # re_sub r cs)
      | None \<Rightarrow> c # re_sub r cs)"
  by pat_completeness auto
termination
  by (relation "measure (\<lambda>(r, s). length s)") auto

definition lits :: "string \<Rightarrow> regex" where
  "lits w = map (\<lambda>c. Atom (Lit c) Once) w"

definition litsI :: "string \<Rightarrow> regex" where
  "litsI w = map (\<lambda>c. Atom (LitI c) Once) w"

definition group :: "regex \<Rightarrow> regex" where
  "group r = GroupOpen # r @ [GroupClose]"

section \<open>Response annotation parser and voice optimizer\<close>

record link =
  link_name :: string
  link_url :: string

record product_card =
  card_name :: string
  card_url :: string
  card_price :: string
  card_rating :: string
  card_feature1 :: string
  card_feature2 :: string
  card_image_hint :: string

record purchase_intent_info =
  pi_product_name :: string
  pi_url :: string
  pi_price :: string

record processed_response =
  spoken_text :: string
  links_to_display :: "link list"
  product_cards :: "product_card list"
  comparison_data :: "string option"
  purchase_intent_data :: "purchase_intent_info option"

definition display_link_pattern :: regex where
  \<comment> \<open>\<^verbatim>\<open>\[DISPLAY_LINK:\s*([^|]+)\s*\|\s*([^\]]+)\]\<close>\<close>
  "display_link_pattern =
     lits ''[DISPLAY_LINK:'' @ [Atom Space Star] @ group [Atom (NoneOf ''|'') Plus]
     @ [Atom Space Star, Atom (Lit CHR ''|'') Once, Atom Space Star]
     @ group [Atom (NoneOf '']'') Plus] @ lits '']''"

definition product_card_pattern :: regex where
  \<comment> \<open>\<^verbatim>\<open>\[PRODUCT_CARD:\s*([^|]+)\|([^|]+)\|([^|]+)\|([^|]+)\|([^|]*)\|([^|]*)\|([^\]]*)\]\<close>\<close>
  "product_card_pattern =
     lits ''[PRODUCT_CARD:'' @ [Atom Space Star]
     @ group [Atom (NoneOf ''|'') Plus] @ lits ''|''
     @ group [Atom (NoneOf ''|'') Plus] @ lits ''|''
     @ group [Atom (NoneOf ''|'') Plus] @ lits ''|''
     @ group [Atom (NoneOf ''|'') Plus] @ lits ''|''
     @ group [Atom (NoneOf ''|'') Star] @ lits ''|''
     @ group [Atom (NoneOf ''|'') Star] @ lits ''|''
     @ group [Atom (NoneOf '']'') Star] @ lits '']''"

definition compare_products_pattern :: regex where
  \<comment> \<open>\<^verbatim>\<open>\[COMPARE_PRODUCTS:\s*([^\]]+)\]\<close>\<close>
  "compare_products_pattern =
     lits ''[COMPARE_PRODUCTS:'' @ [Atom Space Star] @ group [Atom (NoneOf '']'') Plus] @ lits '']''"

definition purchase_intent_pattern :: regex where
  \<comment> \<open>\<^verbatim>\<open>\[PURCHASE_INTENT:\s*([^|]+)\s*\|\s*([^|]+)\s*\|\s*([^\]]+)\]\<close>\<close>
  "purchase_intent_pattern =
     lits ''[PURCHASE_INTENT:'' @ [Atom Space Star] @ group [Atom (NoneOf ''|'') Plus]
     @ [Atom Space Star, Atom (Lit CHR ''|'') Once, Atom Space Star]
     @ group [Atom (NoneOf ''|'') Plus]
     @ [Atom Space Star, Atom (Lit CHR ''|'') Once, Atom Space Star]
     @ group [Atom (NoneOf '']'') Plus] @ lits '']''"

definition patterns :: "regex list" where
  \<comment> \<open>the values of the \<^verbatim>\<open>patterns\<close> dictionary, in its order\<close>
  "patterns = [display_link_pattern, product_card_pattern, compare_products_pattern, purchase_intent_pattern]"

definition grp :: "string list \<Rightarrow> nat \<Rightarrow> string" where
  \<comment> \<open>field \<open>i\<close> of a match, counted from 0; a group that took no part is empty\<close>
  "grp m i = (if i < length m then m ! i else [])"

definition special_formats :: "regex list" where
  \<comment> \<open>\<^verbatim>\<open>\[DISPLAY_LINK:[^\]]+\]\<close> and its three siblings\<close>
  "special_formats =
     [lits ''[DISPLAY_LINK:'' @ [Atom (NoneOf '']'') Plus] @ lits '']'',
      lits ''[PRODUCT_CARD:'' @ [Atom (NoneOf '']'') Plus] @ lits '']'',
      lits ''[COMPARE_PRODUCTS:'' @ [Atom (NoneOf '']'') Plus] @ lits '']'',
      lits ''[PURCHASE_INTENT:'' @ [Atom (NoneOf '']'') Plus] @ lits '']'']"

definition replacements :: "(string \<times> string) list" where
  "replacements =
     [(''I apologize'', ''Sorry about that''),
      (''Could you please'', ''Can you''),
      (''I would be happy to'', ''I'' @ [CHR 0x27] @ ''d love to''),
      (''assistance'', ''help''),
      (''purchase'', ''buy''),
      (''provide me with'', ''tell me''),
      (''information'', ''info''),
      (''however'', ''but''),
      (''therefore'', ''so''),
      (''additionally'', ''also''),
      (''Furthermore'', ''Plus''),
      (''In order to'', ''To''),
      (''I recommend'', ''I'' @ [CHR 0x27] @ ''d suggest''),
      (''specifications'', ''details''),
      (''http'', []),
      (''www.'', []),
      (''amazon.com'', ''Amazon'')]"

definition list_markers :: "string list" where
  \<comment> \<open>the prefixes of \<^verbatim>\<open>line.startswith((...))\<close>; the source's seventh prefix, the bullet
      U+2022, lies outside the texts modelled, none of which starts with it\<close>
  "list_markers = [''1.'', ''2.'', ''3.'', ''4.'', ''5.'', ''-'']"

definition keep_line :: "string \<Rightarrow> bool" where
  "keep_line line = (line \<noteq> [] \<and> list_all (\<lambda>m. \<not> prefix m line) list_markers)"

definition optimized_lines :: "string \<Rightarrow> string list" where
  "optimized_lines text = filter keep_line (map strip (split [CHR 0x0A] [] text))"

definition strip_formats :: "string \<Rightarrow> string" where
  "strip_formats result = foldl (\<lambda>res pattern. strip (re_sub pattern res)) result special_formats"

definition apply_replacements :: "string \<Rightarrow> string" where
  "apply_replacements result =
     foldl (\<lambda>res (formal, casual). replace formal casual res) result replacements"

definition truncate_sentences :: "string \<Rightarrow> string" where
  "truncate_sentences result =
     (let sentences = split ''.'' [] result
      in if length sentences > 4 then join ''. '' (take 3 sentences) @ ''.'' else result)"

definition optimize_for_voice :: "string \<Rightarrow> string" where
  "optimize_for_voice text =
     strip (truncate_sentences (apply_replacements (strip_formats
       (join '' '' (optimized_lines text)))))"

definition link_record :: "string list \<Rightarrow> link" where
  \<comment> \<open>the dictionary built from one match of the link pattern\<close>
  "link_record m = \<lparr> link_name = strip (grp m 0), link_url = strip (grp m 1) \<rparr>"

definition card_record :: "string list \<Rightarrow> product_card" where
  \<comment> \<open>the dictionary built from one match of the card pattern\<close>
  "card_record m =
     \<lparr> card_name = strip (grp m 0), card_url = strip (grp m 1),
       card_price = strip (grp m 2), card_rating = strip (grp m 3),
       card_feature1 = (if grp m 4 \<noteq> [] then strip (grp m 4) else []),
       card_feature2 = (if grp m 5 \<noteq> [] then strip (grp m 5) else []),
       card_image_hint = (if grp m 6 \<noteq> [] then strip (grp m 6) else []) \<rparr>"

definition intent_record :: "string list \<Rightarrow> purchase_intent_info" where
  \<comment> \<open>the dictionary built from one match of the purchase-intent pattern\<close>
  "intent_record m =
     \<lparr> pi_product_name = strip (grp m 0), pi_url = strip (grp m 1), pi_price = strip (grp m 2) \<rparr>"

definition process_response_for_enhanced_features :: "string \<Rightarrow> processed_response" where
  \<comment> \<open>each field keeps its initial value when its pattern has no match; of the matches of
      the comparison and purchase-intent patterns the source reads \<^verbatim>\<open>matches[0]\<close>\<close>
  "process_response_for_enhanced_features response_text =
     (let links = findall display_link_pattern response_text;
          cards = findall product_card_pattern response_text;
          comparisons = findall compare_products_pattern response_text;
          intents = findall purchase_intent_pattern response_text
      in \<lparr> spoken_text =
             optimize_for_voice (foldl (\<lambda>text pattern. re_sub pattern text) response_text patterns),
           links_to_display = map link_record links,
           product_cards = map card_record cards,
           comparison_data =
             (case comparisons of [] \<Rightarrow> None | m # ms \<Rightarrow> Some (grp m 0)),
           purchase_intent_data =
             (case intents of [] \<Rightarrow> None | m # ms \<Rightarrow> Some (intent_record m)) \<rparr>)"

section \<open>Tool results and the agent's state\<close>

text \<open>
  A tool result is whatever the tool executor returns: a JSON-like Python value. A
  dictionary is the list of its items, with distinct keys. Numbers are integers; a
  float would take the same branches, being no string, list or dictionary either.
\<close>

datatype json =
    JNull | JBool bool | JNum int | JStr string | JList "json list"
  | JDict "(string \<times> json) list"

record product =
  url :: json
  name :: string
  price :: string
  rating :: string
  key_features :: "string list"
  availability :: string
  prime_eligible :: bool

record intent =
  intent_purchase_intent :: bool
  comparison_request :: bool
  budget_mentioned :: "int option"

record shopping_session =
  products_viewed :: "product list"
  user_preferences :: "(string \<times> json) list"
  budget_range :: "int option"
  comparison_mode :: bool
  session_purchase_intent :: "json option"
  conversation_context :: "(string \<times> intent) list"

record agent =
  current_products :: "string \<rightharpoonup> product"
  session :: shopping_session

definition reset :: "agent \<Rightarrow> agent" where
  \<comment> \<open>the transcript \<^verbatim>\<open>messages\<close>, which \<^verbatim>\<open>reset\<close> also sets to its two-turn primer,
      is not part of the model\<close>
  "reset a = a \<lparr> current_products := Map.empty,
                 session := \<lparr> products_viewed = [], user_preferences = [],
                              budget_range = None, comparison_mode = False,
                              session_purchase_intent = None, conversation_context = [] \<rparr> \<rparr>"

section \<open>Intent detector\<close>

definition purchase_keywords :: "string list" where
  "purchase_keywords =
     [''buy'', ''purchase'', ''order'', ''i want'', ''i'' @ [CHR 0x27] @ ''ll take'',
      ''add to cart'', ''checkout'']"

definition comparison_keywords :: "string list" where
  "comparison_keywords = [''compare'', ''difference'', ''which is better'', ''vs'', ''versus'']"

definition budget_dollar :: regex where
  \<comment> \<open>\<^verbatim>\<open>\$(\d+)\<close>\<close>
  "budget_dollar = lits ''$'' @ group [Atom Digit Plus]"

definition budget_under :: regex where
  \<comment> \<open>\<^verbatim>\<open>under (\d+)\<close>\<close>
  "budget_under = lits ''under '' @ group [Atom Digit Plus]"

definition budget_budget :: regex where
  \<comment> \<open>\<^verbatim>\<open>budget.*?(\d+)\<close>\<close>
  "budget_budget = lits ''budget'' @ [Atom Dot LazyStar] @ group [Atom Digit Plus]"

definition budget_spend :: regex where
  \<comment> \<open>\<^verbatim>\<open>spend.*?(\d+)\<close>\<close>
  "budget_spend = lits ''spend'' @ [Atom Dot LazyStar] @ group [Atom Digit Plus]"

definition budget_patterns :: "regex list" where
  "budget_patterns = [budget_dollar, budget_under, budget_budget, budget_spend]"

fun extract_budget :: "regex list \<Rightarrow> string \<Rightarrow> error + int option" where
  \<comment> \<open>the loop over the patterns, left at the first match; \<^verbatim>\<open>int(match.group(1))\<close> may
      raise\<close>
  "extract_budget [] s = Inr None"
| "extract_budget (pattern # rest) s =
     (case search pattern s of
        Some m \<Rightarrow> (case py_int (grp m 0) of Inl e \<Rightarrow> Inl e | Inr n \<Rightarrow> Inr (Some n))
      | None \<Rightarrow> extract_budget rest s)"

definition detect_user_intent :: "agent \<Rightarrow> string \<Rightarrow> error + intent \<times> agent" where
  \<comment> \<open>nothing catches the exception of \<^verbatim>\<open>int\<close>: it leaves the function before the
      session is written, so the caller keeps the agent as it was and gets no intent\<close>
  "detect_user_intent a user_input =
     (let user_input_lower = lower user_input
      in case extract_budget budget_patterns user_input_lower of
           Inl e \<Rightarrow> Inl e
         | Inr budget \<Rightarrow>
             Inr (\<lparr> intent_purchase_intent =
                      list_ex (\<lambda>keyword. py_in keyword user_input_lower) purchase_keywords,
                    comparison_request =
                      list_ex (\<lambda>keyword. py_in keyword user_input_lower) comparison_keywords,
                    budget_mentioned = budget \<rparr>,
                  case budget of
                    None \<Rightarrow> a
                  | Some n \<Rightarrow> a \<lparr> session := (session a) \<lparr> budget_range := Some n \<rparr> \<rparr>))"

section \<open>Product extractor\<close>

definition title_pattern :: regex where
  \<comment> \<open>\<^verbatim>\<open>Amazon\.com:\s*([^|]+)\<close>\<close>
  "title_pattern = lits ''Amazon.com:'' @ [Atom Space Star] @ group [Atom (NoneOf ''|'') Plus]"

definition amount :: regex where
  \<comment> \<open>\<^verbatim>\<open>(\d+\.?\d*)\<close>\<close>
  "amount = group [Atom Digit Plus, Atom (LitI CHR ''.'') Opt, Atom Digit Star]"

definition price_patterns :: "regex list" where
  \<comment> \<open>\<^verbatim>\<open>\$(\d+\.?\d*)\<close>, \<^verbatim>\<open>Price:\s*\$(\d+\.?\d*)\<close>, \<^verbatim>\<open>(\d+\.?\d*)\s*dollars?\<close>,
      all under \<^verbatim>\<open>re.IGNORECASE\<close>\<close>
  "price_patterns =
     [litsI ''$'' @ amount,
      litsI ''Price:'' @ [Atom Space Star] @ litsI ''$'' @ amount,
      amount @ [Atom Space Star] @ litsI ''dollar'' @ [Atom (LitI CHR ''s'') Opt]]"

definition score :: regex where
  \<comment> \<open>\<^verbatim>\<open>(\d\.?\d*)\<close>\<close>
  "score = group [Atom Digit Once, Atom (LitI CHR ''.'') Opt, Atom Digit Star]"

definition rating_patterns :: "regex list" where
  \<comment> \<open>\<^verbatim>\<open>(\d\.?\d*)\s*out of 5 stars\<close>, \<^verbatim>\<open>Rating:\s*(\d\.?\d*)\<close>, \<^verbatim>\<open>(\d\.?\d*)\s*stars?\<close>,
      all under \<^verbatim>\<open>re.IGNORECASE\<close>\<close>
  "rating_patterns =
     [score @ [Atom Space Star] @ litsI ''out of 5 stars'',
      litsI ''Rating:'' @ [Atom Space Star] @ score,
      score @ [Atom Space Star] @ litsI ''star'' @ [Atom (LitI CHR ''s'') Opt]]"

definition feature_pattern :: regex where
  \<comment> \<open>the source's bullet pattern, whose two classes also name the bullet U+2022: a
      character that the texts modelled do not contain\<close>
  "feature_pattern =
     [Atom (OneOf ''-*'') Once, Atom Space Star]
     @ group [Atom (NoneOf (''-*'' @ [CHR 0x0A])) (Rep 10 100)]"

fun first_match :: "regex list \<Rightarrow> string \<Rightarrow> string option" where
  \<comment> \<open>group 1 of the first pattern of the list that matches\<close>
  "first_match [] s = None"
| "first_match (pattern # rest) s =
     (case search pattern s of
        Some m \<Rightarrow> Some (grp m 0)
      | None \<Rightarrow> first_match rest s)"

definition extract_from_text :: "string \<Rightarrow> json \<Rightarrow> product" where
  \<comment> \<open>the body of the \<^verbatim>\<open>try\<close> block on a content that is a string\<close>
  "extract_from_text content u =
     \<lparr> url = u,
       name =
         (if py_in ''Amazon.com:'' content
          then (case search title_pattern content of
                  Some m \<Rightarrow> strip (grp m 0)
                | None \<Rightarrow> ''Amazon Product'')
          else ''Amazon Product''),
       price =
         (case first_match price_patterns content of
            Some g \<Rightarrow> ''$'' @ g
          | None \<Rightarrow> ''Price not found''),
       rating =
         (case first_match rating_patterns content of
            Some g \<Rightarrow> g @ ''/5 stars''
          | None \<Rightarrow> ''Rating not found''),
       key_features =
         (if py_in ''features'' (lower content) \<or> py_in ''specifications'' (lower content)
          then take 3 (map (\<lambda>m. grp m 0) (findall feature_pattern content))
          else []),
       availability = ''Check Amazon'',
       prime_eligible =
         (py_in ''prime'' (lower content)
          \<and> (py_in ''eligible'' (lower content) \<or> py_in ''free'' (lower content))) \<rparr>"

fun extraction_body :: "json \<Rightarrow> json \<Rightarrow> error + product" where
  \<comment> \<open>the \<^verbatim>\<open>try\<close> block of \<^verbatim>\<open>_extract_enhanced_product_info\<close>: on a content that is not a
      string, \<^verbatim>\<open>in\<close> or the first \<^verbatim>\<open>re.search\<close> raises \<^verbatim>\<open>TypeError\<close>\<close>
  "extraction_body (JStr content) u = Inr (extract_from_text content u)"
| "extraction_body content u = Inl TypeError"

definition fallback_product :: "json \<Rightarrow> product" where
  "fallback_product u =
     \<lparr> url = u, name = ''Amazon Product'', price = ''See Amazon'', rating = ''N/A'',
       key_features = [], availability = ''Check Amazon'', prime_eligible = False \<rparr>"

definition extract_enhanced_product_info :: "json \<Rightarrow> json \<Rightarrow> product" where
  \<comment> \<open>the \<^verbatim>\<open>except\<close> clause catches every exception of the body\<close>
  "extract_enhanced_product_info content u =
     (case extraction_body content u of
        Inr product_info \<Rightarrow> product_info
      | Inl e \<Rightarrow> fallback_product u)"

function str_nat :: "nat \<Rightarrow> string" where
  \<comment> \<open>the decimal digits of a number, as an f-string prints them\<close>
  "str_nat n =
     (if n < 10 then [char_of (48 + n)]
      else str_nat (n div 10) @ [char_of (48 + n mod 10)])"
  by pat_completeness auto
termination
  by (relation "measure id") auto

declare str_nat.simps [simp del]

definition product_key :: "nat \<Rightarrow> string" where
  \<comment> \<open>\<^verbatim>\<open>f"product_{i+1}"\<close>\<close>
  "product_key i = ''product_'' @ str_nat (i + 1)"

definition dict_get :: "(string \<times> json) list \<Rightarrow> string \<Rightarrow> json \<Rightarrow> json" where
  \<comment> \<open>\<^verbatim>\<open>d.get(key, default)\<close>\<close>
  "dict_get d k dflt = (case map_of d k of Some v \<Rightarrow> v | None \<Rightarrow> dflt)"

definition block_product :: "(string \<times> json) list \<Rightarrow> product" where
  "block_product result =
     extract_enhanced_product_info (dict_get result ''content'' (JStr [])) (dict_get result ''url'' (JStr []))"

fun extract_blocks :: "nat \<Rightarrow> json list \<Rightarrow> agent \<Rightarrow> agent" where
  \<comment> \<open>the loop over \<^verbatim>\<open>enumerate(results)\<close> from index \<open>i\<close> on; a product record is a
      non-empty dictionary, so \<^verbatim>\<open>if product_info\<close> always holds\<close>
  "extract_blocks i [] a = a"
| "extract_blocks i (JDict result # results) a =
     extract_blocks (Suc i) results
       (a \<lparr> current_products := (current_products a)(product_key i \<mapsto> block_product result),
            session := (session a)
              \<lparr> products_viewed := products_viewed (session a) @ [block_product result] \<rparr> \<rparr>)"
| "extract_blocks i (result # results) a = extract_blocks (Suc i) results a"

definition extract_product_info :: "agent \<Rightarrow> json \<Rightarrow> agent" where
  \<comment> \<open>no statement inside the outer \<^verbatim>\<open>try\<close> raises, so its \<^verbatim>\<open>except\<close> clause is never
      entered\<close>
  "extract_product_info a scraped_data =
     (case scraped_data of
        JDict d \<Rightarrow>
          (case map_of d ''data'' of
             Some (JList results) \<Rightarrow> extract_blocks 0 results a
           | _ \<Rightarrow> a)
      | _ \<Rightarrow> a)"

section \<open>Link extraction\<close>











definition initial_agent :: agent where
  \<comment> \<open>the state of a new agent, whose constructor ends with \<^verbatim>\<open>reset\<close>\<close>
  "initial_agent = reset \<lparr> current_products = Map.empty,
     session = \<lparr> products_viewed = [], user_preferences = [],
                 budget_range = None, comparison_mode = False,
                 session_purchase_intent = None, conversation_context = [] \<rparr> \<rparr>"

section \<open>Notions used in the statements\<close>

fun dict_blocks :: "json list \<Rightarrow> (string \<times> json) list list" where
  \<comment> \<open>the blocks of a batch that are dictionaries: those that yield a product\<close>
  "dict_blocks [] = []"
| "dict_blocks (JDict result # results) = result # dict_blocks results"
| "dict_blocks (result # results) = dict_blocks results"

definition digits_value :: "string \<Rightarrow> nat" where
  \<comment> \<open>the number a string of decimal digits denotes\<close>
  "digits_value s = foldl (\<lambda>a c. 10 * a + ((of_char c :: nat) - 48)) 0 s"

definition batch_results :: "json \<Rightarrow> json list" where
  \<comment> \<open>the blocks of a scrape result: the list under its \<^verbatim>\<open>data\<close> key, and no block when
      the result is no dictionary or has no list there\<close>
  "batch_results scraped_data =
     (case scraped_data of
        JDict d \<Rightarrow> (case map_of d ''data'' of Some (JList results) \<Rightarrow> results | _ \<Rightarrow> [])
      | _ \<Rightarrow> [])"



definition link_directive :: "link \<Rightarrow> string" where
  \<comment> \<open>the directive \<^verbatim>\<open>[DISPLAY_LINK:name|url]\<close> that carries the two fields as they are\<close>
  "link_directive l = ''[DISPLAY_LINK:'' @ link_name l @ ''|'' @ link_url l @ '']''"

definition link_ok :: "link \<Rightarrow> bool" where
  \<comment> \<open>fields a directive can carry: neither is blank, the name holds no bar and the url
      no closing bracket\<close>
  "link_ok l =
     (dropWhile isspace (link_name l) \<noteq> [] \<and> dropWhile isspace (link_url l) \<noteq> []
      \<and> CHR ''|'' \<notin> set (link_name l) \<and> CHR '']'' \<notin> set (link_url l))"

definition card_directive :: "product_card \<Rightarrow> string" where
  \<comment> \<open>the directive \<^verbatim>\<open>[PRODUCT_CARD:name|url|price|rating|feature1|feature2|image_hint]\<close>
      that carries the seven fields as they are\<close>
  "card_directive c =
     ''[PRODUCT_CARD:'' @ card_name c @ ''|'' @ card_url c @ ''|'' @ card_price c @ ''|''
     @ card_rating c @ ''|'' @ card_feature1 c @ ''|'' @ card_feature2 c @ ''|''
     @ card_image_hint c @ '']''"

definition card_ok :: "product_card \<Rightarrow> bool" where
  \<comment> \<open>fields a directive can carry: the name is not blank, the url, the price and the
      rating are not empty, the first six fields hold no bar and the last no closing
      bracket; the last three fields may be empty\<close>
  "card_ok c =
     (dropWhile isspace (card_name c) \<noteq> [] \<and> card_url c \<noteq> [] \<and> card_price c \<noteq> []
      \<and> card_rating c \<noteq> []
      \<and> CHR ''|'' \<notin> set (card_name c) \<and> CHR ''|'' \<notin> set (card_url c)
      \<and> CHR ''|'' \<notin> set (card_price c) \<and> CHR ''|'' \<notin> set (card_rating c)
      \<and> CHR ''|'' \<notin> set (card_feature1 c) \<and> CHR ''|'' \<notin> set (card_feature2 c)
      \<and> CHR '']'' \<notin> set (card_image_hint c))"

definition stripped_link :: "link \<Rightarrow> link" where
  \<comment> \<open>the link with both fields trimmed\<close>
  "stripped_link l = \<lparr> link_name = strip (link_name l), link_url = strip (link_url l) \<rparr>"

definition stripped_card :: "product_card \<Rightarrow> product_card" where
  \<comment> \<open>the card with every field trimmed\<close>
  "stripped_card c =
     \<lparr> card_name = strip (card_name c), card_url = strip (card_url c),
       card_price = strip (card_price c), card_rating = strip (card_rating c),
       card_feature1 = strip (card_feature1 c), card_feature2 = strip (card_feature2 c),
       card_image_hint = strip (card_image_hint c) \<rparr>"

definition card_groups :: "product_card \<Rightarrow> string list" where
  \<comment> \<open>the seven groups that the card pattern captures from \<open>card_directive c\<close>\<close>
  "card_groups c =
     [dropWhile isspace (card_name c), card_url c, card_price c, card_rating c,
      card_feature1 c, card_feature2 c, card_image_hint c]"

fun literal_count :: "char \<Rightarrow> regex \<Rightarrow> nat" where
  \<comment> \<open>how many times a pattern asks for the literal character \<open>d\<close>, exactly once each\<close>
  "literal_count d [] = 0"
| "literal_count d (Atom c q # r) = (if c = Lit d \<and> q = Once then 1 else 0) + literal_count d r"
| "literal_count d (GroupOpen # r) = literal_count d r"
| "literal_count d (GroupClose # r) = literal_count d r"

section \<open>Properties of the text primitives and of the matcher\<close>

lemma first_some_single: "first_some [x] = x"
  by (cases x) simp_all

lemma downto_head: "\<exists>ns. downto lo n = (lo + n) # ns"
  by (cases n) simp_all

lemma rmatch_first_count:
  assumes "counts q (length (takeWhile (accepts c) s)) = n # ns"
    and "rmatch r (drop n s) (map_option (\<lambda>g. g @ take n s) cur) groups = Some res"
  shows "rmatch (Atom c q # r) s cur groups = Some res"
  using assms by simp

lemma rmatch_once:
  "accepts c x \<Longrightarrow> rmatch (Atom c Once # r) (x # s) cur groups
     = rmatch r s (map_option (\<lambda>g. g @ [x]) cur) groups"
  by (simp add: first_some_single)

lemma rmatch_once_fail:
  "\<not> accepts c x \<Longrightarrow> rmatch (Atom c Once # r) (x # s) cur groups = None"
  by simp

lemma rmatch_once_empty: "rmatch (Atom c Once # r) [] cur groups = None"
  by simp

lemma rmatch_lits:
  "rmatch (lits w @ r) (w @ s) cur groups = rmatch r s (map_option (\<lambda>g. g @ w) cur) groups"
proof (induction w arbitrary: cur)
  case Nil
  show ?case by (cases cur) (simp_all add: lits_def)
next
  case (Cons a w)
  have "rmatch (lits (a # w) @ r) ((a # w) @ s) cur groups
      = rmatch (lits w @ r) (w @ s) (map_option (\<lambda>g. g @ [a]) cur) groups"
    using rmatch_once [of "Lit a" a "lits w @ r" "w @ s" cur groups] by (simp add: lits_def)
  also have "\<dots> = rmatch r s (map_option (\<lambda>g. g @ w) (map_option (\<lambda>g. g @ [a]) cur)) groups"
    by (rule Cons.IH)
  finally show ?case by (cases cur) simp_all
qed

lemma rmatch_plus_all:
  assumes "xs \<noteq> []" "\<forall>x\<in>set xs. accepts c x" "s = [] \<or> \<not> accepts c (hd s)"
    and "rmatch r s (map_option (\<lambda>g. g @ xs) cur) groups = Some res"
  shows "rmatch (Atom c Plus # r) (xs @ s) cur groups = Some res"
proof -
  have tw: "takeWhile (accepts c) (xs @ s) = xs"
    using assms(2,3) by (cases s) simp_all
  obtain ns where "downto 1 (length xs - 1) = (1 + (length xs - 1)) # ns"
    using downto_head by blast
  with assms(1) have "counts Plus (length xs) = length xs # ns"
    by (cases xs) simp_all
  then show ?thesis
    using assms(4) tw by (intro rmatch_first_count[where n = "length xs" and ns = ns]) simp_all
qed

lemma search_skip:
  assumes "\<forall>x\<in>set pre. \<not> accepts c x"
  shows "search (Atom c Once # r) (pre @ s) = search (Atom c Once # r) s"
  using assms by (induction pre) (simp_all del: rmatch.simps add: rmatch_once_fail)

lemma search_here:
  "rmatch r (c # cs) None [] = Some (groups, rest) \<Longrightarrow> search r (c # cs) = Some groups"
  by simp

lemma lower_char_digit: "isdigit c \<Longrightarrow> lower_char c = c"
  by (auto simp: isdigit_def lower_char_def is_upper_def Let_def)

lemma lower_digits: "\<forall>c\<in>set ds. isdigit c \<Longrightarrow> lower ds = ds"
  by (induction ds) (simp_all add: lower_def lower_char_digit)

lemma lower_append: "lower (xs @ ys) = lower xs @ lower ys"
  by (simp add: lower_def)

lemma lower_char_dollar: "lower_char c = CHR ''$'' \<longleftrightarrow> c = CHR ''$''"
proof
  assume h: "lower_char c = CHR ''$''"
  show "c = CHR ''$''"
  proof (cases "is_upper c")
    case False
    then show ?thesis using h by (simp add: lower_char_def)
  next
    case True
    then have "lower_char c = char_of ((of_char c :: nat) + 32)"
      by (simp add: lower_char_def)
    with h have "(of_char (char_of ((of_char c :: nat) + 32)) :: nat) = of_char CHR ''$''"
      by simp
    then have "((of_char c :: nat) + 32) mod 256 = 36"
      by simp
    moreover from True have "(of_char c :: nat) + 32 < 256" "65 \<le> (of_char c :: nat)"
      by (auto simp: is_upper_def Let_def)
    ultimately show ?thesis
      by simp
  qed
next
  show "c = CHR ''$'' \<Longrightarrow> lower_char c = CHR ''$''"
    by (simp add: lower_char_def is_upper_def)
qed

lemma lower_no_dollar: "CHR ''$'' \<notin> set pre \<Longrightarrow> CHR ''$'' \<notin> set (lower pre)"
proof
  assume a: "CHR ''$'' \<notin> set pre" and "CHR ''$'' \<in> set (lower pre)"
  then obtain x where "x \<in> set pre" "lower_char x = CHR ''$''"
    by (auto simp: lower_def)
  with a show False by (simp add: lower_char_dollar)
qed

lemma search_budget_dollar:
  assumes "CHR ''$'' \<notin> set pre" "ds \<noteq> []" "\<forall>c\<in>set ds. isdigit c" "rest = [] \<or> \<not> isdigit (hd rest)"
  shows "search budget_dollar (pre @ ''$'' @ ds @ rest) = Some [ds]"
proof -
  have "rmatch [GroupClose] rest (map_option (\<lambda>g. g @ ds) (Some [])) [] = Some ([ds], rest)"
    by simp
  then have "rmatch [Atom Digit Plus, GroupClose] (ds @ rest) (Some []) [] = Some ([ds], rest)"
    using assms by (intro rmatch_plus_all) simp_all
  then have "rmatch budget_dollar (CHR ''$'' # ds @ rest) None [] = Some ([ds], rest)"
    by (simp add: budget_dollar_def lits_def group_def rmatch_once del: rmatch.simps(4))
  then have "search budget_dollar (CHR ''$'' # ds @ rest) = Some [ds]"
    by (rule search_here)
  moreover have "search budget_dollar (pre @ CHR ''$'' # ds @ rest) = search budget_dollar (CHR ''$'' # ds @ rest)"
    unfolding budget_dollar_def lits_def
    using assms(1) search_skip [of pre "Lit CHR ''$''" "group [Atom Digit Plus]" "CHR ''$'' # ds @ rest"]
    by auto
  ultimately show ?thesis by simp
qed

section \<open>Intent detector: budget\<close>

lemma detect_raises:
  "extract_budget budget_patterns (lower u) = Inl e \<Longrightarrow> detect_user_intent a u = Inl e"
  by (simp add: detect_user_intent_def)

lemma detect_budget:
  "extract_budget budget_patterns (lower u) = Inr (Some n) \<Longrightarrow>
   \<exists>i a'. detect_user_intent a u = Inr (i, a') \<and> budget_mentioned i = Some n
          \<and> budget_range (session a') = Some n"
  by (simp add: detect_user_intent_def Let_def)

lemma py_int_cases:
  "length s \<le> int_max_str_digits \<Longrightarrow> py_int s = Inr (decimal_value s)"
  "length s > int_max_str_digits \<Longrightarrow> py_int s = Inl ValueError"
  by (simp_all add: py_int_def)

lemma extract_budget_first:
  "\<forall>q\<in>set ps. search q s = None \<Longrightarrow> search p s = Some m \<Longrightarrow>
   extract_budget (ps @ p # qs) s
     = (case py_int (grp m 0) of Inl e \<Rightarrow> Inl e | Inr n \<Rightarrow> Inr (Some n))"
  by (induction ps) simp_all

lemma extract_budget_dollar:
  assumes "CHR ''$'' \<notin> set pre" "ds \<noteq> []" "\<forall>c\<in>set ds. isdigit c" "rest = [] \<or> \<not> isdigit (hd rest)"
  shows "extract_budget budget_patterns (pre @ ''$'' @ ds @ rest)
       = (case py_int ds of Inl e \<Rightarrow> Inl e | Inr n \<Rightarrow> Inr (Some n))"
  using search_budget_dollar [OF assms] by (simp add: budget_patterns_def grp_def)

lemma lower_dollar_amount:
  assumes "\<forall>c\<in>set ds. isdigit c"
  shows "lower (pre @ ''$'' @ ds @ rest) = lower pre @ ''$'' @ ds @ lower rest"
  using lower_digits [OF assms] by (simp add: lower_append) (simp add: lower_def lower_char_def is_upper_def)

lemma detect_dollar_point:
  assumes "CHR ''$'' \<notin> set pre" "ds \<noteq> []" "\<forall>c\<in>set ds. isdigit c"
  shows "extract_budget budget_patterns (lower (pre @ ''$'' @ ds @ ''.'' @ frac))
       = (case py_int ds of Inl e \<Rightarrow> Inl e | Inr n \<Rightarrow> Inr (Some n))"
proof -
  have "lower (pre @ ''$'' @ ds @ ''.'' @ frac) = lower pre @ ''$'' @ ds @ lower (''.'' @ frac)"
    using assms(3) by (rule lower_dollar_amount)
  moreover have "lower (''.'' @ frac) = ''.'' @ lower frac"
    by (simp add: lower_def lower_char_def is_upper_def)
  moreover have "extract_budget budget_patterns (lower pre @ ''$'' @ ds @ (''.'' @ lower frac))
       = (case py_int ds of Inl e \<Rightarrow> Inl e | Inr n \<Rightarrow> Inr (Some n))"
    using assms by (intro extract_budget_dollar lower_no_dollar) (simp_all add: isdigit_def)
  ultimately show ?thesis
    by simp
qed

lemma detect_dollar_end:
  assumes "ds \<noteq> []" "\<forall>c\<in>set ds. isdigit c"
  shows "search budget_dollar (lower (''$'' @ ds)) = Some [ds]"
    and "extract_budget budget_patterns (lower (''$'' @ ds))
       = (case py_int ds of Inl e \<Rightarrow> Inl e | Inr n \<Rightarrow> Inr (Some n))"
proof -
  have l: "lower (''$'' @ ds) = [] @ ''$'' @ ds @ []"
    using lower_dollar_amount [OF assms(2), of "[]" "[]"] by (simp add: lower_def)
  show "search budget_dollar (lower (''$'' @ ds)) = Some [ds]"
    unfolding l using assms by (intro search_budget_dollar) simp_all
  show "extract_budget budget_patterns (lower (''$'' @ ds))
       = (case py_int ds of Inl e \<Rightarrow> Inl e | Inr n \<Rightarrow> Inr (Some n))"
    unfolding l using assms by (intro extract_budget_dollar) simp_all
qed

lemma ones: "replicate 4301 c \<noteq> []" "length (replicate 4301 c) > int_max_str_digits"
  "isdigit c \<Longrightarrow> \<forall>x\<in>set (replicate 4301 c). isdigit x"
  by (simp_all add: int_max_str_digits_def)

text \<open>
  Claim C10, as the code has it. When the utterance mentions a budget as a dollar amount
  with a decimal point (\<^verbatim>\<open>$19.99\<close>), the intent detector captures only the digits before
  the point: if they are at most 4300, the limit of \<^verbatim>\<open>int\<close>, \<open>budget_mentioned\<close> and the
  session's \<open>budget_range\<close> become the integer part; if they are more, \<^verbatim>\<open>int\<close> raises
  \<^verbatim>\<open>ValueError\<close> and the detector with it. Here the first dollar sign of the utterance is
  followed by the digits \<open>ds\<close>, a point and any text.
\<close>

theorem budget_integer_part:
  assumes "CHR ''$'' \<notin> set pre" "ds \<noteq> []" "\<forall>c\<in>set ds. isdigit c"
  shows "(length ds \<le> int_max_str_digits \<longrightarrow>
            (\<exists>i a'. detect_user_intent a (pre @ ''$'' @ ds @ ''.'' @ frac) = Inr (i, a')
               \<and> budget_mentioned i = Some (decimal_value ds)
               \<and> budget_range (session a') = Some (decimal_value ds)))
       \<and> (length ds > int_max_str_digits \<longrightarrow>
            detect_user_intent a (pre @ ''$'' @ ds @ ''.'' @ frac) = Inl ValueError)"
proof (intro conjI impI)
  assume "length ds \<le> int_max_str_digits"
  then have "extract_budget budget_patterns (lower (pre @ ''$'' @ ds @ ''.'' @ frac))
      = Inr (Some (decimal_value ds))"
    using detect_dollar_point [OF assms, of frac] by (simp add: py_int_cases)
  then show "\<exists>i a'. detect_user_intent a (pre @ ''$'' @ ds @ ''.'' @ frac) = Inr (i, a')
               \<and> budget_mentioned i = Some (decimal_value ds)
               \<and> budget_range (session a') = Some (decimal_value ds)"
    by (rule detect_budget)
next
  assume "length ds > int_max_str_digits"
  then have "extract_budget budget_patterns (lower (pre @ ''$'' @ ds @ ''.'' @ frac)) = Inl ValueError"
    using detect_dollar_point [OF assms, of frac] by (simp add: py_int_cases)
  then show "detect_user_intent a (pre @ ''$'' @ ds @ ''.'' @ frac) = Inl ValueError"
    by (rule detect_raises)
qed

theorem budget_integer_part_witness:
  "(\<exists>i a'. detect_user_intent initial_agent ''$19.99'' = Inr (i, a')
      \<and> budget_mentioned i = Some 19 \<and> budget_range (session a') = Some 19)
   \<and> detect_user_intent initial_agent (''I have $'' @ replicate 4301 CHR ''1'' @ ''.50'') = Inl ValueError"
proof -
  have "\<exists>i a'. detect_user_intent initial_agent ''$19.99'' = Inr (i, a')
      \<and> budget_mentioned i = Some 19 \<and> budget_range (session a') = Some 19"
    using budget_integer_part [of "[]" "''19''" initial_agent "''99''"]
    by (simp add: isdigit_def decimal_value_def int_max_str_digits_def)
  moreover have "detect_user_intent initial_agent (''I have $'' @ replicate 4301 CHR ''1'' @ ''.50'') = Inl ValueError"
    using budget_integer_part [of "''I have ''" "replicate 4301 CHR ''1''" initial_agent "''50''"]
      ones [of "CHR ''1''"]
    by (simp add: isdigit_def)
  ultimately show ?thesis
    by (rule conjI)
qed

text \<open>
  Claim C10 as stated fails: with 4301 digits before the point the detector raises, and
  no budget is mentioned or written.
\<close>

theorem long_amount_counterexample:
  "detect_user_intent initial_agent (''$'' @ replicate 4301 CHR ''9'' @ ''.99'') = Inl ValueError"
proof -
  have d: "\<forall>c\<in>set (replicate 4301 CHR ''9''). isdigit c"
    by (rule ones) (simp add: isdigit_def)
  have "extract_budget budget_patterns (lower ([] @ ''$'' @ replicate 4301 CHR ''9'' @ ''.'' @ ''99''))
      = Inl ValueError"
    using detect_dollar_point [OF _ ones(1) d, of "[]" "''99''"] ones(2) [of "CHR ''9''"]
    by (simp add: py_int_cases)
  then have "detect_user_intent initial_agent ([] @ ''$'' @ replicate 4301 CHR ''9'' @ ''.'' @ ''99'') = Inl ValueError"
    by (rule detect_raises)
  then show ?thesis
    by simp
qed

text \<open>
  Claim C5, as the code has it. The intent detector tries the budget patterns \<^verbatim>\<open>$N\<close>,
  \<^verbatim>\<open>under N\<close>, \<^verbatim>\<open>budget...N\<close>, \<^verbatim>\<open>spend...N\<close> in that order, and the first one that matches
  decides, whatever the later patterns would match: if it captured at most 4300 digits,
  \<open>budget_mentioned\<close> is the integer it captured and the session's \<open>budget_range\<close> is
  overwritten with it; if it captured more, \<^verbatim>\<open>int\<close> raises \<^verbatim>\<open>ValueError\<close> and the
  detector with it. With no earlier pattern this is the case of an utterance in which
  \<^verbatim>\<open>$N\<close> matches.
\<close>

theorem budget_first_match_wins:
  assumes "budget_patterns = earlier @ pattern # later"
    and "\<forall>q\<in>set earlier. search q (lower u) = None"
    and "search pattern (lower u) = Some m"
  shows "(length (grp m 0) \<le> int_max_str_digits \<longrightarrow>
            (\<exists>i a'. detect_user_intent a u = Inr (i, a')
               \<and> budget_mentioned i = Some (decimal_value (grp m 0))
               \<and> budget_range (session a') = Some (decimal_value (grp m 0))))
       \<and> (length (grp m 0) > int_max_str_digits \<longrightarrow> detect_user_intent a u = Inl ValueError)"
proof (intro conjI impI)
  have e: "extract_budget budget_patterns (lower u)
      = (case py_int (grp m 0) of Inl e \<Rightarrow> Inl e | Inr n \<Rightarrow> Inr (Some n))"
    using extract_budget_first [OF assms(2,3), of later] assms(1) by simp
  {
    assume "length (grp m 0) \<le> int_max_str_digits"
    then have "extract_budget budget_patterns (lower u) = Inr (Some (decimal_value (grp m 0)))"
      using e by (simp add: py_int_cases)
    then show "\<exists>i a'. detect_user_intent a u = Inr (i, a')
               \<and> budget_mentioned i = Some (decimal_value (grp m 0))
               \<and> budget_range (session a') = Some (decimal_value (grp m 0))"
      by (rule detect_budget)
  }
  {
    assume "length (grp m 0) > int_max_str_digits"
    then have "extract_budget budget_patterns (lower u) = Inl ValueError"
      using e by (simp add: py_int_cases)
    then show "detect_user_intent a u = Inl ValueError"
      by (rule detect_raises)
  }
qed

theorem budget_first_match_wins_witness:
  "budget_patterns = [] @ budget_dollar # [budget_under, budget_budget, budget_spend]
   \<and> search budget_dollar (lower ''Under 30 or $20'') = Some [''20'']
   \<and> search budget_under (lower ''Under 30 or $20'') = Some [''30'']
   \<and> (\<exists>i a'. detect_user_intent initial_agent ''Under 30 or $20'' = Inr (i, a')
        \<and> budget_mentioned i = Some 20 \<and> budget_range (session a') = Some 20)
   \<and> search budget_dollar (lower (''$'' @ replicate 4301 CHR ''2'')) = Some [replicate 4301 CHR ''2'']
   \<and> detect_user_intent initial_agent (''$'' @ replicate 4301 CHR ''2'') = Inl ValueError"
proof -
  have p: "budget_patterns = [] @ budget_dollar # [budget_under, budget_budget, budget_spend]"
    by (simp add: budget_patterns_def)
  have d: "search budget_dollar (lower ''Under 30 or $20'') = Some [''20'']"
    by code_simp
  have u: "search budget_under (lower ''Under 30 or $20'') = Some [''30'']"
    by code_simp
  have b: "\<exists>i a'. detect_user_intent initial_agent ''Under 30 or $20'' = Inr (i, a')
        \<and> budget_mentioned i = Some 20 \<and> budget_range (session a') = Some 20"
    using budget_first_match_wins [OF p _ d, of initial_agent]
    by (simp add: grp_def decimal_value_def int_max_str_digits_def)
  have two: "\<forall>c\<in>set (replicate 4301 CHR ''2''). isdigit c"
    by (rule ones) (simp add: isdigit_def)
  have l: "search budget_dollar (lower (''$'' @ replicate 4301 CHR ''2'')) = Some [replicate 4301 CHR ''2'']"
    using ones(1) two by (rule detect_dollar_end)
  have r: "detect_user_intent initial_agent (''$'' @ replicate 4301 CHR ''2'') = Inl ValueError"
    using budget_first_match_wins [OF p _ l, of initial_agent] ones(2) [of "CHR ''2''"]
    by (simp add: grp_def)
  show ?thesis
    using p d u b l r by (intro conjI)
qed

text \<open>
  Claim C5 as stated fails: in this utterance the pattern \<^verbatim>\<open>$N\<close> matches, with an \<open>N\<close> of
  4301 digits, and the detector raises instead of returning \<open>N\<close>.
\<close>

theorem long_budget_counterexample:
  "search budget_dollar (lower (''$'' @ replicate 4301 CHR ''7'')) = Some [replicate 4301 CHR ''7'']
   \<and> detect_user_intent initial_agent (''$'' @ replicate 4301 CHR ''7'') = Inl ValueError"
proof -
  have d: "\<forall>c\<in>set (replicate 4301 CHR ''7''). isdigit c"
    by (rule ones) (simp add: isdigit_def)
  have "extract_budget budget_patterns (lower (''$'' @ replicate 4301 CHR ''7'')) = Inl ValueError"
    using detect_dollar_end(2) [OF ones(1) d] ones(2) [of "CHR ''7''"]
    by (simp add: py_int_cases)
  then have "detect_user_intent initial_agent (''$'' @ replicate 4301 CHR ''7'') = Inl ValueError"
    by (rule detect_raises)
  moreover have "search budget_dollar (lower (''$'' @ replicate 4301 CHR ''7'')) = Some [replicate 4301 CHR ''7'']"
    using ones(1) d by (rule detect_dollar_end)
  ultimately show ?thesis
    by simp
qed

section \<open>Product extractor\<close>

lemma digits_value_str_nat: "digits_value (str_nat n) = n"
proof (induction n rule: str_nat.induct)
  case (1 n)
  show ?case
  proof (cases "n < 10")
    case True
    then show ?thesis
      by (subst str_nat.simps) (simp add: digits_value_def)
  next
    case False
    have "n mod 10 < 10" by simp
    then have "(of_char (char_of (48 + n mod 10)) :: nat) = 48 + n mod 10"
      by simp
    with False 1 show ?thesis
      by (subst str_nat.simps) (simp add: digits_value_def)
  qed
qed

lemma str_nat_inj: "str_nat m = str_nat n \<Longrightarrow> m = n"
  using digits_value_str_nat by metis

lemma product_key_inj: "product_key i = product_key j \<longleftrightarrow> i = j"
  by (auto simp: product_key_def dest: str_nat_inj)

lemma shift_blocks:
  assumes "\<forall>j<length (x # results). (\<exists>result. (x # results) ! j = JDict result) \<longrightarrow> k \<noteq> product_key (i + j)"
  shows "\<forall>j<length results. (\<exists>result. results ! j = JDict result) \<longrightarrow> k \<noteq> product_key (Suc i + j)"
proof (intro allI impI)
  fix j
  assume "j < length results" "\<exists>result. results ! j = JDict result"
  then have "Suc j < length (x # results)" "\<exists>result. (x # results) ! Suc j = JDict result"
    by simp_all
  with assms have "k \<noteq> product_key (i + Suc j)"
    by blast
  then show "k \<noteq> product_key (Suc i + j)"
    by simp
qed

lemma extract_blocks_other:
  "(\<forall>j<length results. (\<exists>result. results ! j = JDict result) \<longrightarrow> k \<noteq> product_key (i + j))
   \<Longrightarrow> current_products (extract_blocks i results a) k = current_products a k"
proof (induction results arbitrary: i a)
  case Nil
  show ?case by simp
next
  case (Cons x results)
  note sh = shift_blocks [OF Cons.prems]
  show ?case
  proof (cases x)
    case (JDict result)
    have "0 < length (x # results)" "\<exists>result. (x # results) ! 0 = JDict result"
      using JDict by simp_all
    with Cons.prems have "k \<noteq> product_key (i + 0)"
      by blast
    then show ?thesis
      using Cons.IH [OF sh] JDict by simp
  qed (use Cons.IH [OF sh] in simp_all)
qed

lemma extract_blocks_key:
  "j < length results \<Longrightarrow> results ! j = JDict result
   \<Longrightarrow> current_products (extract_blocks i results a) (product_key (i + j)) = Some (block_product result)"
proof (induction results arbitrary: i j a)
  case Nil
  then show ?case by simp
next
  case (Cons x results)
  show ?case
  proof (cases j)
    case 0
    with Cons.prems have x: "x = JDict result"
      by simp
    have "\<forall>j'<length results. (\<exists>r. results ! j' = JDict r) \<longrightarrow> product_key i \<noteq> product_key (Suc i + j')"
      by (simp add: product_key_inj)
    then show ?thesis
      using 0 x by (simp add: extract_blocks_other)
  next
    case (Suc j')
    with Cons.prems have "j' < length results" "results ! j' = JDict result"
      by simp_all
    then have "\<And>a. current_products (extract_blocks (Suc i) results a) (product_key (Suc i + j'))
        = Some (block_product result)"
      by (rule Cons.IH)
    then show ?thesis
      using Suc by (cases x) simp_all
  qed
qed

lemma extract_blocks_viewed:
  "products_viewed (session (extract_blocks i results a))
     = products_viewed (session a) @ map block_product (dict_blocks results)"
  by (induction i results a rule: extract_blocks.induct) simp_all

lemma extract_product_info_blocks:
  "extract_product_info a scraped_data = extract_blocks 0 (batch_results scraped_data) a"
  by (simp add: extract_product_info_def batch_results_def split: json.split option.split)

lemma extract_product_info_viewed:
  "map_of d ''data'' = Some (JList results) \<Longrightarrow>
   products_viewed (session (extract_product_info a (JDict d)))
     = products_viewed (session a) @ map block_product (dict_blocks results)"
  by (simp add: extract_product_info_def extract_blocks_viewed)

text \<open>
  Claim C7, as the code has it. Processing a batch binds the key \<^verbatim>\<open>product_\<close>\<open>j+1\<close> to the
  product of block \<open>j\<close>, for every block \<open>j\<close> of the batch that is a dictionary; every
  other key keeps the binding it had before the batch, so that the entries of an earlier,
  longer batch stay in the mapping until \<^verbatim>\<open>reset\<close>. The products of the batch are
  appended to \<open>products_viewed\<close>, which accumulates across batches.
\<close>

theorem mapping_after_batch:
  assumes "map_of d ''data'' = Some (JList results)"
  shows "(\<forall>j<length results. \<forall>result. results ! j = JDict result \<longrightarrow>
            current_products (extract_product_info a (JDict d)) (product_key j) = Some (block_product result))
       \<and> (\<forall>k. (\<forall>j<length results. (\<exists>result. results ! j = JDict result) \<longrightarrow> k \<noteq> product_key j) \<longrightarrow>
            current_products (extract_product_info a (JDict d)) k = current_products a k)
       \<and> products_viewed (session (extract_product_info a (JDict d)))
            = products_viewed (session a) @ map block_product (dict_blocks results)"
proof (intro conjI allI impI)
  fix j result
  assume "j < length results" "results ! j = JDict result"
  then show "current_products (extract_product_info a (JDict d)) (product_key j) = Some (block_product result)"
    using assms extract_blocks_key [of j results result 0 a] by (simp add: extract_product_info_def)
next
  fix k
  assume "\<forall>j<length results. (\<exists>result. results ! j = JDict result) \<longrightarrow> k \<noteq> product_key j"
  then show "current_products (extract_product_info a (JDict d)) k = current_products a k"
    using assms extract_blocks_other [of results k 0 a] by (simp add: extract_product_info_def)
next
  show "products_viewed (session (extract_product_info a (JDict d)))
      = products_viewed (session a) @ map block_product (dict_blocks results)"
    using assms by (rule extract_product_info_viewed)
qed

theorem mapping_after_batch_witness:
  "current_products
     (extract_product_info
        (extract_product_info initial_agent
           (JDict [(''data'', JList [JDict [(''url'', JStr ''B01''), (''content'', JStr ''x'')],
                                      JDict [(''url'', JStr ''B02''), (''content'', JStr ''y'')]])]))
        (JDict [(''data'', JList [JDict [(''url'', JStr ''B03''), (''content'', JStr ''z'')]])]))
     ''product_1''
   = Some (block_product [(''url'', JStr ''B03''), (''content'', JStr ''z'')])
   \<and> current_products
     (extract_product_info
        (extract_product_info initial_agent
           (JDict [(''data'', JList [JDict [(''url'', JStr ''B01''), (''content'', JStr ''x'')],
                                      JDict [(''url'', JStr ''B02''), (''content'', JStr ''y'')]])]))
        (JDict [(''data'', JList [JDict [(''url'', JStr ''B03''), (''content'', JStr ''z'')]])]))
     ''product_2''
   = current_products
       (extract_product_info initial_agent
           (JDict [(''data'', JList [JDict [(''url'', JStr ''B01''), (''content'', JStr ''x'')],
                                      JDict [(''url'', JStr ''B02''), (''content'', JStr ''y'')]])]))
       ''product_2''"
proof -
  have k1: "product_key 0 = ''product_1''"
    by code_simp
  have k2: "''product_2'' \<noteq> product_key 0"
    by (simp add: k1)
  show ?thesis
    using mapping_after_batch [of "[(''data'', JList [JDict [(''url'', JStr ''B03''), (''content'', JStr ''z'')]])]"
        "[JDict [(''url'', JStr ''B03''), (''content'', JStr ''z'')]]"
        "extract_product_info initial_agent
           (JDict [(''data'', JList [JDict [(''url'', JStr ''B01''), (''content'', JStr ''x'')],
                                      JDict [(''url'', JStr ''B02''), (''content'', JStr ''y'')]])])"]
      k1 k2
    by simp
qed

text \<open>
  Claim C7 as stated fails: after a batch of two blocks and then a batch of one block,
  the mapping still binds \<^verbatim>\<open>product_2\<close>, to a product of the first batch.
\<close>

theorem stale_entry_counterexample:
  "map_option url (current_products
     (extract_product_info
        (extract_product_info initial_agent
           (JDict [(''data'', JList [JDict [(''url'', JStr ''B01''), (''content'', JStr ''x'')],
                                      JDict [(''url'', JStr ''B02''), (''content'', JStr ''y'')]])]))
        (JDict [(''data'', JList [JDict [(''url'', JStr ''B03''), (''content'', JStr ''z'')]])]))
     ''product_2'')
   = Some (JStr ''B02'')"
  by code_simp

lemma url_extract_enhanced: "url (extract_enhanced_product_info content u) = u"
  by (cases content)
     (simp_all add: extract_enhanced_product_info_def fallback_product_def extract_from_text_def)

lemma url_block_product: "url (block_product result) = dict_get result ''url'' (JStr [])"
  by (simp add: block_product_def url_extract_enhanced)

text \<open>
  Claim C6, as the code has it. For every scrape result, the url of every product that
  the batch appends to \<open>products_viewed\<close> is the \<^verbatim>\<open>url\<close> entry of its block, and the
  empty string when the block has no such entry.
\<close>

theorem product_url_from_block:
  "map url (products_viewed (session (extract_product_info a scraped_data)))
     = map url (products_viewed (session a))
       @ map (\<lambda>result. dict_get result ''url'' (JStr [])) (dict_blocks (batch_results scraped_data))"
  by (simp add: extract_product_info_blocks extract_blocks_viewed url_block_product)

theorem product_url_from_block_witness:
  "map url (products_viewed (session (extract_product_info initial_agent
      (JDict [(''data'', JList [JDict [(''url'', JStr ''https://www.amazon.com/dp/B01''), (''content'', JStr ''x'')],
                                 JDict [(''content'', JNull)]])]))))
   = [JStr ''https://www.amazon.com/dp/B01'', JStr []]"
  using product_url_from_block [of initial_agent
      "JDict [(''data'', JList [JDict [(''url'', JStr ''https://www.amazon.com/dp/B01''), (''content'', JStr ''x'')],
                                 JDict [(''content'', JNull)]])]"]
  by (simp add: initial_agent_def reset_def dict_get_def batch_results_def)

text \<open>
  Claim C6 as stated fails: a block without a \<^verbatim>\<open>url\<close> entry yields a product whose url
  is the empty string.
\<close>

theorem product_url_empty_counterexample:
  "map url (products_viewed (session (extract_product_info initial_agent
      (JDict [(''data'', JList [JDict [(''content'', JStr ''Amazon.com: Wireless Mouse | $19.99'')]])]))))
   = [JStr []]"
  by (simp add: extract_product_info_def initial_agent_def reset_def block_product_def
      url_extract_enhanced dict_get_def)

lemma block_product_cases:
  "block_product result =
     (case extraction_body (dict_get result ''content'' (JStr [])) (dict_get result ''url'' (JStr [])) of
        Inr product_info \<Rightarrow> product_info
      | Inl e \<Rightarrow> \<lparr> url = dict_get result ''url'' (JStr []), name = ''Amazon Product'',
                   price = ''See Amazon'', rating = ''N/A'', key_features = [],
                   availability = ''Check Amazon'', prime_eligible = False \<rparr>)"
  by (simp add: block_product_def extract_enhanced_product_info_def fallback_product_def
      split: sum.split)

text \<open>
  Claim C8. Product extraction returns for every scrape result, whatever its shape, and
  a block whose extraction fails does not end the batch: every block of the batch that is
  a dictionary adds one product to \<open>products_viewed\<close>, the extracted one when the body
  of \<^verbatim>\<open>_extract_enhanced_product_info\<close> returns and the product of sentinel values when
  it raises.
\<close>

theorem extraction_failure_fallback:
  "products_viewed (session (extract_product_info a scraped_data))
     = products_viewed (session a) @
       map (\<lambda>result.
              case extraction_body (dict_get result ''content'' (JStr [])) (dict_get result ''url'' (JStr [])) of
                Inr product_info \<Rightarrow> product_info
              | Inl e \<Rightarrow> \<lparr> url = dict_get result ''url'' (JStr []), name = ''Amazon Product'',
                           price = ''See Amazon'', rating = ''N/A'', key_features = [],
                           availability = ''Check Amazon'', prime_eligible = False \<rparr>)
           (dict_blocks (batch_results scraped_data))"
  by (simp add: extract_product_info_blocks extract_blocks_viewed block_product_cases)

theorem extraction_failure_fallback_witness:
  "map price (products_viewed (session (extract_product_info initial_agent
      (JDict [(''data'', JList [JDict [(''url'', JStr ''B01''), (''content'', JStr ''Price: $19.99'')],
                                 JDict [(''url'', JStr ''B02''), (''content'', JNull)],
                                 JDict [(''url'', JStr ''B03''), (''content'', JStr ''no price here'')]])]))))
   = [''$19.99'', ''See Amazon'', ''Price not found'']"
proof -
  have "map price (products_viewed (session initial_agent) @
       map (\<lambda>result.
              case extraction_body (dict_get result ''content'' (JStr [])) (dict_get result ''url'' (JStr [])) of
                Inr product_info \<Rightarrow> product_info
              | Inl e \<Rightarrow> \<lparr> url = dict_get result ''url'' (JStr []), name = ''Amazon Product'',
                           price = ''See Amazon'', rating = ''N/A'', key_features = [],
                           availability = ''Check Amazon'', prime_eligible = False \<rparr>)
           (dict_blocks (batch_results
      (JDict [(''data'', JList [JDict [(''url'', JStr ''B01''), (''content'', JStr ''Price: $19.99'')],
                                 JDict [(''url'', JStr ''B02''), (''content'', JNull)],
                                 JDict [(''url'', JStr ''B03''), (''content'', JStr ''no price here'')]])]))))
     = [''$19.99'', ''See Amazon'', ''Price not found'']"
    by code_simp
  then show ?thesis
    by (simp only: extraction_failure_fallback)
qed

section \<open>Link extraction\<close>
























section \<open>Response annotation parser\<close>

lemma rmatch_star_all:
  assumes "\<forall>x\<in>set xs. accepts c x" "s = [] \<or> \<not> accepts c (hd s)"
    and "rmatch r s (map_option (\<lambda>g. g @ xs) cur) groups = Some res"
  shows "rmatch (Atom c Star # r) (xs @ s) cur groups = Some res"
proof -
  have tw: "takeWhile (accepts c) (xs @ s) = xs"
    using assms(1,2) by (cases s) simp_all
  obtain ns where "downto 0 (length xs) = (0 + length xs) # ns"
    using downto_head by blast
  then have "counts Star (length xs) = length xs # ns"
    by simp
  then show ?thesis
    using assms(3) tw by (intro rmatch_first_count[where n = "length xs" and ns = ns]) simp_all
qed

lemma rmatch_group_plus_lit:
  assumes "xs \<noteq> []" "\<forall>x\<in>set xs. accepts c x" "\<not> accepts c d"
    and "rmatch r s None (groups @ [xs]) = Some res"
  shows "rmatch (group [Atom c Plus] @ lits [d] @ r) (xs @ d # s) None groups = Some res"
proof -
  have "rmatch (lits [d] @ r) ([d] @ s) None (groups @ [xs]) = Some res"
    using assms(4) by (simp only: rmatch_lits) simp
  then have "rmatch (GroupClose # lits [d] @ r) (d # s) (map_option (\<lambda>g. g @ xs) (Some [])) groups = Some res"
    by simp
  then have "rmatch (Atom c Plus # GroupClose # lits [d] @ r) (xs @ d # s) (Some []) groups = Some res"
    using assms(1-3) by (intro rmatch_plus_all) simp_all
  then show ?thesis
    by (simp add: group_def del: rmatch.simps(4))
qed

lemma rmatch_group_star_lit:
  assumes "\<forall>x\<in>set xs. accepts c x" "\<not> accepts c d"
    and "rmatch r s None (groups @ [xs]) = Some res"
  shows "rmatch (group [Atom c Star] @ lits [d] @ r) (xs @ d # s) None groups = Some res"
proof -
  have "rmatch (lits [d] @ r) ([d] @ s) None (groups @ [xs]) = Some res"
    using assms(3) by (simp only: rmatch_lits) simp
  then have "rmatch (GroupClose # lits [d] @ r) (d # s) (map_option (\<lambda>g. g @ xs) (Some [])) groups = Some res"
    by simp
  then have "rmatch (Atom c Star # GroupClose # lits [d] @ r) (xs @ d # s) (Some []) groups = Some res"
    using assms(1,2) by (intro rmatch_star_all) simp_all
  then show ?thesis
    by (simp add: group_def del: rmatch.simps(4))
qed

lemma rmatch_spaces:
  assumes "dropWhile isspace xs \<noteq> []"
    and "rmatch r (dropWhile isspace xs @ s) None groups = Some res"
  shows "rmatch (Atom Space Star # r) (xs @ s) None groups = Some res"
proof -
  have "\<not> isspace (hd (dropWhile isspace xs))"
    using assms(1) by (rule hd_dropWhile)
  then have "dropWhile isspace xs @ s = [] \<or> \<not> accepts Space (hd (dropWhile isspace xs @ s))"
    using assms(1) by simp
  moreover have "\<forall>x\<in>set (takeWhile isspace xs). accepts Space x"
    by (auto dest: set_takeWhileD)
  ultimately have "rmatch (Atom Space Star # r) (takeWhile isspace xs @ (dropWhile isspace xs @ s)) None groups = Some res"
    using assms(2) by (intro rmatch_star_all) simp_all
  then show ?thesis
    by (simp del: rmatch.simps(4) flip: append_assoc)
qed

lemma findall_skip:
  assumes "\<forall>x\<in>set pre. \<not> accepts c x"
  shows "findall (Atom c Once # r) (pre @ s) = findall (Atom c Once # r) s"
  using assms by (induction pre) (simp_all del: rmatch.simps add: rmatch_once_fail)

lemma findall_here:
  assumes "rmatch r (c # cs) None [] = Some (groups, rest)" "length rest < length (c # cs)"
  shows "findall r (c # cs) = groups # findall r rest"
  using assms by simp

lemma rmatch_compare:
  assumes "dropWhile isspace x \<noteq> []" "CHR '']'' \<notin> set x"
  shows "rmatch compare_products_pattern (''[COMPARE_PRODUCTS:'' @ x @ '']'' @ rest) None []
       = Some ([dropWhile isspace x], rest)"
proof -
  let ?x = "dropWhile isspace x"
  have n: "\<forall>c\<in>set ?x. accepts (NoneOf '']'') c"
    using assms(2) by (auto dest: set_dropWhileD)
  have "rmatch [] rest None ([] @ [?x]) = Some ([?x], rest)"
    by simp
  then have "rmatch (group [Atom (NoneOf '']'') Plus] @ lits '']'' @ []) (?x @ CHR '']'' # rest) None []
      = Some ([?x], rest)"
    using assms(1) n by (intro rmatch_group_plus_lit) simp_all
  then have "rmatch (Atom Space Star # group [Atom (NoneOf '']'') Plus] @ lits '']'' @ [])
      (x @ CHR '']'' # rest) None [] = Some ([?x], rest)"
    using assms(1) by (intro rmatch_spaces)
  then have "rmatch (lits ''[COMPARE_PRODUCTS:'' @ Atom Space Star # group [Atom (NoneOf '']'') Plus] @ lits '']'' @ [])
      (''[COMPARE_PRODUCTS:'' @ x @ CHR '']'' # rest) None [] = Some ([?x], rest)"
    by (simp only: rmatch_lits) simp
  then show ?thesis
    by (simp add: compare_products_pattern_def del: rmatch.simps)
qed

lemma findall_compare_first:
  assumes "CHR ''['' \<notin> set pre" "dropWhile isspace x \<noteq> []" "CHR '']'' \<notin> set x"
  shows "findall compare_products_pattern (pre @ ''[COMPARE_PRODUCTS:'' @ x @ '']'' @ rest)
       = [dropWhile isspace x] # findall compare_products_pattern rest"
proof -
  have p: "compare_products_pattern = Atom (Lit CHR ''['') Once #
      (lits ''COMPARE_PRODUCTS:'' @ [Atom Space Star] @ group [Atom (NoneOf '']'') Plus] @ lits '']'')"
    by (simp add: compare_products_pattern_def lits_def)
  have "findall compare_products_pattern (pre @ ''[COMPARE_PRODUCTS:'' @ x @ '']'' @ rest)
      = findall compare_products_pattern (''[COMPARE_PRODUCTS:'' @ x @ '']'' @ rest)"
    unfolding p using assms(1) by (intro findall_skip) auto
  also have "\<dots> = [dropWhile isspace x] # findall compare_products_pattern rest"
    using rmatch_compare [OF assms(2,3), of rest]
    by (simp del: rmatch.simps findall.simps add: findall_here)
  finally show ?thesis .
qed

lemma rmatch_product_card:
  assumes "dropWhile isspace n \<noteq> []" "u \<noteq> []" "p \<noteq> []" "r \<noteq> []"
    and "CHR ''|'' \<notin> set n" "CHR ''|'' \<notin> set u" "CHR ''|'' \<notin> set p" "CHR ''|'' \<notin> set r"
    and "CHR ''|'' \<notin> set f1" "CHR ''|'' \<notin> set f2" "CHR '']'' \<notin> set h"
  shows "rmatch product_card_pattern
           (''[PRODUCT_CARD:'' @ n @ ''|'' @ u @ ''|'' @ p @ ''|'' @ r @ ''|'' @ f1 @ ''|'' @ f2 @ ''|'' @ h @ '']'' @ rest)
           None []
       = Some ([dropWhile isspace n, u, p, r, f1, f2, h], rest)"
proof -
  let ?n = "dropWhile isspace n"
  let ?res = "Some ([?n, u, p, r, f1, f2, h], rest)"
  let ?P = "\<lambda>xs. \<forall>c\<in>set xs. accepts (NoneOf ''|'') c"
  have nn: "?P ?n"
    using assms(5) by (auto dest: set_dropWhileD)
  have nu: "?P u" and np: "?P p" and nr: "?P r" and nf1: "?P f1" and nf2: "?P f2"
    using assms(6-10) by auto
  have nh: "\<forall>c\<in>set h. accepts (NoneOf '']'') c"
    using assms(11) by auto
  have "rmatch [] rest None ([?n, u, p, r, f1, f2] @ [h]) = ?res"
    by simp
  then have "rmatch (group [Atom (NoneOf '']'') Star] @ lits '']'' @ []) (h @ CHR '']'' # rest) None [?n, u, p, r, f1, f2] = ?res"
    using nh by (intro rmatch_group_star_lit) simp_all
  then have 7: "rmatch (group [Atom (NoneOf '']'') Star] @ lits '']'') (h @ '']'' @ rest) None ([?n, u, p, r, f1] @ [f2]) = ?res"
    by simp
  let ?r7 = "group [Atom (NoneOf '']'') Star] @ lits '']''"
  have "rmatch (group [Atom (NoneOf ''|'') Star] @ lits ''|'' @ ?r7) (f2 @ CHR ''|'' # h @ '']'' @ rest) None [?n, u, p, r, f1] = ?res"
    using nf2 7 by (intro rmatch_group_star_lit) simp_all
  then have 6: "rmatch (group [Atom (NoneOf ''|'') Star] @ lits ''|'' @ ?r7) (f2 @ ''|'' @ h @ '']'' @ rest) None ([?n, u, p, r] @ [f1]) = ?res"
    by simp
  let ?r6 = "group [Atom (NoneOf ''|'') Star] @ lits ''|'' @ ?r7"
  have "rmatch (group [Atom (NoneOf ''|'') Star] @ lits ''|'' @ ?r6) (f1 @ CHR ''|'' # f2 @ ''|'' @ h @ '']'' @ rest) None [?n, u, p, r] = ?res"
    using nf1 6 by (intro rmatch_group_star_lit) simp_all
  then have 5: "rmatch (group [Atom (NoneOf ''|'') Star] @ lits ''|'' @ ?r6) (f1 @ ''|'' @ f2 @ ''|'' @ h @ '']'' @ rest) None ([?n, u, p] @ [r]) = ?res"
    by simp
  let ?r5 = "group [Atom (NoneOf ''|'') Star] @ lits ''|'' @ ?r6"
  have "rmatch (group [Atom (NoneOf ''|'') Plus] @ lits ''|'' @ ?r5) (r @ CHR ''|'' # f1 @ ''|'' @ f2 @ ''|'' @ h @ '']'' @ rest) None [?n, u, p] = ?res"
    using assms(4) nr 5 by (intro rmatch_group_plus_lit) simp_all
  then have 4: "rmatch (group [Atom (NoneOf ''|'') Plus] @ lits ''|'' @ ?r5) (r @ ''|'' @ f1 @ ''|'' @ f2 @ ''|'' @ h @ '']'' @ rest) None ([?n, u] @ [p]) = ?res"
    by simp
  let ?r4 = "group [Atom (NoneOf ''|'') Plus] @ lits ''|'' @ ?r5"
  have "rmatch (group [Atom (NoneOf ''|'') Plus] @ lits ''|'' @ ?r4) (p @ CHR ''|'' # r @ ''|'' @ f1 @ ''|'' @ f2 @ ''|'' @ h @ '']'' @ rest) None [?n, u] = ?res"
    using assms(3) np 4 by (intro rmatch_group_plus_lit) simp_all
  then have 3: "rmatch (group [Atom (NoneOf ''|'') Plus] @ lits ''|'' @ ?r4) (p @ ''|'' @ r @ ''|'' @ f1 @ ''|'' @ f2 @ ''|'' @ h @ '']'' @ rest) None ([?n] @ [u]) = ?res"
    by simp
  let ?r3 = "group [Atom (NoneOf ''|'') Plus] @ lits ''|'' @ ?r4"
  have "rmatch (group [Atom (NoneOf ''|'') Plus] @ lits ''|'' @ ?r3) (u @ CHR ''|'' # p @ ''|'' @ r @ ''|'' @ f1 @ ''|'' @ f2 @ ''|'' @ h @ '']'' @ rest) None [?n] = ?res"
    using assms(2) nu 3 by (intro rmatch_group_plus_lit) simp_all
  then have 2: "rmatch (group [Atom (NoneOf ''|'') Plus] @ lits ''|'' @ ?r3) (u @ ''|'' @ p @ ''|'' @ r @ ''|'' @ f1 @ ''|'' @ f2 @ ''|'' @ h @ '']'' @ rest) None ([] @ [?n]) = ?res"
    by simp
  let ?r2 = "group [Atom (NoneOf ''|'') Plus] @ lits ''|'' @ ?r3"
  have "rmatch (group [Atom (NoneOf ''|'') Plus] @ lits ''|'' @ ?r2) (?n @ CHR ''|'' # u @ ''|'' @ p @ ''|'' @ r @ ''|'' @ f1 @ ''|'' @ f2 @ ''|'' @ h @ '']'' @ rest) None [] = ?res"
    using assms(1) nn 2 by (intro rmatch_group_plus_lit) simp_all
  then have 1: "rmatch (group [Atom (NoneOf ''|'') Plus] @ lits ''|'' @ ?r2) (?n @ (''|'' @ u @ ''|'' @ p @ ''|'' @ r @ ''|'' @ f1 @ ''|'' @ f2 @ ''|'' @ h @ '']'' @ rest)) None [] = ?res"
    by simp
  let ?r1 = "group [Atom (NoneOf ''|'') Plus] @ lits ''|'' @ ?r2"
  have "rmatch (Atom Space Star # ?r1) (n @ (''|'' @ u @ ''|'' @ p @ ''|'' @ r @ ''|'' @ f1 @ ''|'' @ f2 @ ''|'' @ h @ '']'' @ rest)) None [] = ?res"
    using assms(1) 1 by (intro rmatch_spaces)
  then have "rmatch (lits ''[PRODUCT_CARD:'' @ Atom Space Star # ?r1)
      (''[PRODUCT_CARD:'' @ n @ (''|'' @ u @ ''|'' @ p @ ''|'' @ r @ ''|'' @ f1 @ ''|'' @ f2 @ ''|'' @ h @ '']'' @ rest)) None [] = ?res"
    by (simp only: rmatch_lits) simp
  then show ?thesis
    by (simp add: product_card_pattern_def del: rmatch.simps)
qed

lemma rmatch_group_plus_sep:
  assumes "xs \<noteq> []" "\<forall>x\<in>set xs. accepts c x" "\<not> accepts c d" "\<not> isspace d"
    and "rmatch r s None (groups @ [xs]) = Some res"
  shows "rmatch (group [Atom c Plus] @ [Atom Space Star, Atom (Lit d) Once] @ r) (xs @ d # s) None groups
       = Some res"
proof -
  have "rmatch (Atom (Lit d) Once # r) (d # s) None (groups @ [xs]) = Some res"
    using assms(5) by (simp add: rmatch_once del: rmatch.simps(4))
  then have "rmatch (Atom Space Star # Atom (Lit d) Once # r) ([] @ d # s) None (groups @ [xs]) = Some res"
    using assms(4) by (intro rmatch_star_all) simp_all
  then have "rmatch (GroupClose # Atom Space Star # Atom (Lit d) Once # r) (d # s)
      (map_option (\<lambda>g. g @ xs) (Some [])) groups = Some res"
    by (simp del: rmatch.simps(4))
  then have "rmatch (Atom c Plus # GroupClose # Atom Space Star # Atom (Lit d) Once # r) (xs @ d # s)
      (Some []) groups = Some res"
    using assms(1-3) by (intro rmatch_plus_all) simp_all
  then show ?thesis
    by (simp add: group_def del: rmatch.simps(4))
qed

lemma rmatch_purchase_intent:
  assumes "dropWhile isspace n \<noteq> []" "dropWhile isspace u \<noteq> []" "dropWhile isspace p \<noteq> []"
    and "CHR ''|'' \<notin> set n" "CHR ''|'' \<notin> set u" "CHR '']'' \<notin> set p"
  shows "rmatch purchase_intent_pattern
           (''[PURCHASE_INTENT:'' @ n @ ''|'' @ u @ ''|'' @ p @ '']'' @ rest) None []
       = Some ([dropWhile isspace n, dropWhile isspace u, dropWhile isspace p], rest)"
proof -
  let ?n = "dropWhile isspace n" and ?u = "dropWhile isspace u" and ?p = "dropWhile isspace p"
  let ?res = "Some ([?n, ?u, ?p], rest)"
  have nn: "\<forall>c\<in>set ?n. accepts (NoneOf ''|'') c" and nu: "\<forall>c\<in>set ?u. accepts (NoneOf ''|'') c"
    and np: "\<forall>c\<in>set ?p. accepts (NoneOf '']'') c"
    using assms(4-6) by (auto dest: set_dropWhileD)
  have bar: "\<not> isspace CHR ''|''"
    by (simp add: isspace_def)
  have "rmatch [] rest None ([?n, ?u] @ [?p]) = ?res"
    by simp
  then have "rmatch (group [Atom (NoneOf '']'') Plus] @ lits '']'' @ []) (?p @ CHR '']'' # rest) None [?n, ?u] = ?res"
    using assms(3) np by (intro rmatch_group_plus_lit) simp_all
  then have "rmatch (group [Atom (NoneOf '']'') Plus] @ lits '']'') (?p @ ('']'' @ rest)) None [?n, ?u] = ?res"
    by simp
  then have 3: "rmatch (Atom Space Star # group [Atom (NoneOf '']'') Plus] @ lits '']'') (p @ ('']'' @ rest)) None ([?n] @ [?u]) = ?res"
    using assms(3) by (intro rmatch_spaces) simp_all
  let ?r3 = "Atom Space Star # group [Atom (NoneOf '']'') Plus] @ lits '']''"
  have "rmatch (group [Atom (NoneOf ''|'') Plus] @ [Atom Space Star, Atom (Lit CHR ''|'') Once] @ ?r3)
      (?u @ CHR ''|'' # p @ ('']'' @ rest)) None [?n] = ?res"
    using assms(2) nu bar 3 by (intro rmatch_group_plus_sep) simp_all
  then have "rmatch (group [Atom (NoneOf ''|'') Plus] @ [Atom Space Star, Atom (Lit CHR ''|'') Once] @ ?r3)
      (?u @ (''|'' @ p @ '']'' @ rest)) None [?n] = ?res"
    by simp
  then have 2: "rmatch (Atom Space Star # group [Atom (NoneOf ''|'') Plus] @ [Atom Space Star, Atom (Lit CHR ''|'') Once] @ ?r3)
      (u @ (''|'' @ p @ '']'' @ rest)) None ([] @ [?n]) = ?res"
    using assms(2) by (intro rmatch_spaces) simp_all
  let ?r2 = "Atom Space Star # group [Atom (NoneOf ''|'') Plus] @ [Atom Space Star, Atom (Lit CHR ''|'') Once] @ ?r3"
  have "rmatch (group [Atom (NoneOf ''|'') Plus] @ [Atom Space Star, Atom (Lit CHR ''|'') Once] @ ?r2)
      (?n @ CHR ''|'' # u @ (''|'' @ p @ '']'' @ rest)) None [] = ?res"
    using assms(1) nn bar 2 by (intro rmatch_group_plus_sep) simp_all
  then have "rmatch (group [Atom (NoneOf ''|'') Plus] @ [Atom Space Star, Atom (Lit CHR ''|'') Once] @ ?r2)
      (?n @ (''|'' @ u @ ''|'' @ p @ '']'' @ rest)) None [] = ?res"
    by simp
  then have "rmatch (Atom Space Star # group [Atom (NoneOf ''|'') Plus] @ [Atom Space Star, Atom (Lit CHR ''|'') Once] @ ?r2)
      (n @ (''|'' @ u @ ''|'' @ p @ '']'' @ rest)) None [] = ?res"
    using assms(1) by (intro rmatch_spaces)
  then have "rmatch (lits ''[PURCHASE_INTENT:'' @ Atom Space Star # group [Atom (NoneOf ''|'') Plus] @ [Atom Space Star, Atom (Lit CHR ''|'') Once] @ ?r2)
      (''[PURCHASE_INTENT:'' @ n @ (''|'' @ u @ ''|'' @ p @ '']'' @ rest)) None [] = ?res"
    by (simp only: rmatch_lits) simp
  then show ?thesis
    by (simp add: purchase_intent_pattern_def del: rmatch.simps)
qed

lemma strip_dropWhile: "strip (dropWhile isspace s) = strip s"
  by (simp add: strip_def)

lemma rmatch_display_link:
  assumes "dropWhile isspace n \<noteq> []" "dropWhile isspace u \<noteq> []"
    and "CHR ''|'' \<notin> set n" "CHR '']'' \<notin> set u"
  shows "rmatch display_link_pattern (''[DISPLAY_LINK:'' @ n @ ''|'' @ u @ '']'' @ rest) None []
       = Some ([dropWhile isspace n, dropWhile isspace u], rest)"
proof -
  let ?n = "dropWhile isspace n" and ?u = "dropWhile isspace u"
  let ?res = "Some ([?n, ?u], rest)"
  have nn: "\<forall>c\<in>set ?n. accepts (NoneOf ''|'') c" and nu: "\<forall>c\<in>set ?u. accepts (NoneOf '']'') c"
    using assms(3,4) by (auto dest: set_dropWhileD)
  have bar: "\<not> isspace CHR ''|''"
    by (simp add: isspace_def)
  have "rmatch [] rest None ([?n] @ [?u]) = ?res"
    by simp
  then have "rmatch (group [Atom (NoneOf '']'') Plus] @ lits '']'' @ []) (?u @ CHR '']'' # rest) None [?n] = ?res"
    using assms(2) nu by (intro rmatch_group_plus_lit) simp_all
  then have "rmatch (group [Atom (NoneOf '']'') Plus] @ lits '']'') (?u @ ('']'' @ rest)) None [?n] = ?res"
    by simp
  then have 2: "rmatch (Atom Space Star # group [Atom (NoneOf '']'') Plus] @ lits '']'') (u @ ('']'' @ rest)) None ([] @ [?n]) = ?res"
    using assms(2) by (intro rmatch_spaces) simp_all
  let ?r2 = "Atom Space Star # group [Atom (NoneOf '']'') Plus] @ lits '']''"
  have "rmatch (group [Atom (NoneOf ''|'') Plus] @ [Atom Space Star, Atom (Lit CHR ''|'') Once] @ ?r2)
      (?n @ CHR ''|'' # u @ ('']'' @ rest)) None [] = ?res"
    using assms(1) nn bar 2 by (intro rmatch_group_plus_sep) simp_all
  then have "rmatch (group [Atom (NoneOf ''|'') Plus] @ [Atom Space Star, Atom (Lit CHR ''|'') Once] @ ?r2)
      (?n @ (''|'' @ u @ '']'' @ rest)) None [] = ?res"
    by simp
  then have "rmatch (Atom Space Star # group [Atom (NoneOf ''|'') Plus] @ [Atom Space Star, Atom (Lit CHR ''|'') Once] @ ?r2)
      (n @ (''|'' @ u @ '']'' @ rest)) None [] = ?res"
    using assms(1) by (intro rmatch_spaces)
  then have "rmatch (lits ''[DISPLAY_LINK:'' @ Atom Space Star # group [Atom (NoneOf ''|'') Plus] @ [Atom Space Star, Atom (Lit CHR ''|'') Once] @ ?r2)
      (''[DISPLAY_LINK:'' @ n @ (''|'' @ u @ '']'' @ rest)) None [] = ?res"
    by (simp only: rmatch_lits) simp
  then show ?thesis
    by (simp add: display_link_pattern_def del: rmatch.simps)
qed

lemma pattern_heads:
  "display_link_pattern = Atom (Lit CHR ''['') Once # tl display_link_pattern"
  "product_card_pattern = Atom (Lit CHR ''['') Once # tl product_card_pattern"
  "compare_products_pattern = Atom (Lit CHR ''['') Once # tl compare_products_pattern"
  "purchase_intent_pattern = Atom (Lit CHR ''['') Once # tl purchase_intent_pattern"
  by (simp_all add: display_link_pattern_def product_card_pattern_def compare_products_pattern_def
      purchase_intent_pattern_def lits_def)

lemma findall_links:
  assumes "\<forall>item\<in>set items. link_ok (fst item) \<and> CHR ''['' \<notin> set (snd item)"
  shows "findall display_link_pattern (concat (map (\<lambda>item. link_directive (fst item) @ snd item) items))
       = map (\<lambda>item. [dropWhile isspace (link_name (fst item)), dropWhile isspace (link_url (fst item))]) items"
  using assms
proof (induction items)
  case Nil
  show ?case
    by (subst pattern_heads) (simp del: rmatch.simps add: rmatch_once_empty)
next
  case (Cons item items)
  let ?T = "concat (map (\<lambda>item. link_directive (fst item) @ snd item) items)"
  let ?g = "[dropWhile isspace (link_name (fst item)), dropWhile isspace (link_url (fst item))]"
  have ok: "link_ok (fst item)" and gap: "\<forall>x\<in>set (snd item). \<not> accepts (Lit CHR ''['') x"
    using Cons.prems by auto
  have m: "rmatch display_link_pattern
      (''[DISPLAY_LINK:'' @ link_name (fst item) @ ''|'' @ link_url (fst item) @ '']'' @ (snd item @ ?T)) None []
      = Some (?g, snd item @ ?T)"
    using ok by (intro rmatch_display_link) (simp_all add: link_ok_def)
  have "findall display_link_pattern (link_directive (fst item) @ snd item @ ?T)
      = ?g # findall display_link_pattern (snd item @ ?T)"
    using m by (simp del: rmatch.simps findall.simps add: findall_here link_directive_def)
  also have "findall display_link_pattern (snd item @ ?T) = findall display_link_pattern ?T"
    by (subst pattern_heads, subst (2) pattern_heads) (rule findall_skip [OF gap])
  also have "findall display_link_pattern ?T
      = map (\<lambda>item. [dropWhile isspace (link_name (fst item)), dropWhile isspace (link_url (fst item))]) items"
    using Cons.prems by (intro Cons.IH) simp
  finally show ?case
    by simp
qed

lemma rmatch_card_directive:
  assumes "card_ok c"
  shows "rmatch product_card_pattern (card_directive c @ rest) None [] = Some (card_groups c, rest)"
  using rmatch_product_card [of "card_name c" "card_url c" "card_price c" "card_rating c"
      "card_feature1 c" "card_feature2 c" "card_image_hint c" rest] assms
  by (simp add: card_ok_def card_directive_def card_groups_def del: rmatch.simps)

lemma findall_cards:
  assumes "\<forall>item\<in>set items. card_ok (fst item) \<and> CHR ''['' \<notin> set (snd item)"
  shows "findall product_card_pattern (concat (map (\<lambda>item. card_directive (fst item) @ snd item) items))
       = map (\<lambda>item. card_groups (fst item)) items"
  using assms
proof (induction items)
  case Nil
  show ?case
    by (subst pattern_heads) (simp del: rmatch.simps add: rmatch_once_empty)
next
  case (Cons item items)
  let ?T = "concat (map (\<lambda>item. card_directive (fst item) @ snd item) items)"
  have ok: "card_ok (fst item)" and gap: "\<forall>x\<in>set (snd item). \<not> accepts (Lit CHR ''['') x"
    using Cons.prems by auto
  have d: "card_directive (fst item) = CHR ''['' # tl (card_directive (fst item))"
    by (simp add: card_directive_def)
  have "rmatch product_card_pattern (card_directive (fst item) @ (snd item @ ?T)) None []
      = Some (card_groups (fst item), snd item @ ?T)"
    using ok by (rule rmatch_card_directive)
  then have "findall product_card_pattern (card_directive (fst item) @ snd item @ ?T)
      = card_groups (fst item) # findall product_card_pattern (snd item @ ?T)"
    by (subst d, subst (asm) d) (simp del: rmatch.simps findall.simps add: findall_here)
  also have "findall product_card_pattern (snd item @ ?T) = findall product_card_pattern ?T"
    by (subst pattern_heads, subst (2) pattern_heads) (rule findall_skip [OF gap])
  also have "findall product_card_pattern ?T = map (\<lambda>item. card_groups (fst item)) items"
    using Cons.prems by (intro Cons.IH) simp
  finally show ?case
    by simp
qed

lemma strip_nil: "strip [] = []"
  by (simp add: strip_def)

lemma card_record_groups: "card_record (card_groups c) = stripped_card c"
  by (simp add: card_record_def card_groups_def stripped_card_def grp_def strip_dropWhile strip_nil)

lemma link_record_groups:
  "link_record [dropWhile isspace (link_name l), dropWhile isspace (link_url l)] = stripped_link l"
  by (simp add: link_record_def stripped_link_def grp_def strip_dropWhile)

lemma findall_gap:
  "CHR ''['' \<notin> set pre \<Longrightarrow> findall display_link_pattern (pre @ s) = findall display_link_pattern s"
  "CHR ''['' \<notin> set pre \<Longrightarrow> findall product_card_pattern (pre @ s) = findall product_card_pattern s"
  "CHR ''['' \<notin> set pre \<Longrightarrow> findall compare_products_pattern (pre @ s) = findall compare_products_pattern s"
  "CHR ''['' \<notin> set pre \<Longrightarrow> findall purchase_intent_pattern (pre @ s) = findall purchase_intent_pattern s"
proof -
  assume "CHR ''['' \<notin> set pre"
  then have g: "\<forall>x\<in>set pre. \<not> accepts (Lit CHR ''['') x"
    by auto
  show "findall display_link_pattern (pre @ s) = findall display_link_pattern s"
    by (subst pattern_heads, subst (2) pattern_heads) (rule findall_skip [OF g])
  show "findall product_card_pattern (pre @ s) = findall product_card_pattern s"
    by (subst pattern_heads, subst (2) pattern_heads) (rule findall_skip [OF g])
  show "findall compare_products_pattern (pre @ s) = findall compare_products_pattern s"
    by (subst pattern_heads, subst (2) pattern_heads) (rule findall_skip [OF g])
  show "findall purchase_intent_pattern (pre @ s) = findall purchase_intent_pattern s"
    by (subst pattern_heads, subst (2) pattern_heads) (rule findall_skip [OF g])
qed

lemma findall_purchase_first:
  assumes "CHR ''['' \<notin> set pre"
    and "dropWhile isspace n \<noteq> []" "dropWhile isspace u \<noteq> []" "dropWhile isspace p \<noteq> []"
    and "CHR ''|'' \<notin> set n" "CHR ''|'' \<notin> set u" "CHR '']'' \<notin> set p"
  shows "findall purchase_intent_pattern (pre @ ''[PURCHASE_INTENT:'' @ n @ ''|'' @ u @ ''|'' @ p @ '']'' @ rest)
       = [dropWhile isspace n, dropWhile isspace u, dropWhile isspace p]
         # findall purchase_intent_pattern rest"
proof -
  have "findall purchase_intent_pattern (pre @ ''[PURCHASE_INTENT:'' @ n @ ''|'' @ u @ ''|'' @ p @ '']'' @ rest)
      = findall purchase_intent_pattern (''[PURCHASE_INTENT:'' @ n @ ''|'' @ u @ ''|'' @ p @ '']'' @ rest)"
    using assms(1) by (rule findall_gap)
  also have "\<dots> = [dropWhile isspace n, dropWhile isspace u, dropWhile isspace p]
         # findall purchase_intent_pattern rest"
    using rmatch_purchase_intent [OF assms(2-7), of rest]
    by (simp del: rmatch.simps findall.simps add: findall_here)
  finally show ?thesis .
qed

text \<open>
  Claim C1, as the code has it. Of several \<^verbatim>\<open>COMPARE_PRODUCTS\<close> directives, and of several
  \<^verbatim>\<open>PURCHASE_INTENT\<close> directives, the parser keeps the first: when the text before a
  well-formed directive holds no opening bracket, \<open>comparison_data\<close> is the text of
  that directive, and \<open>purchase_intent_data\<close> its three trimmed fields, whatever
  follows it, further directives of the same kind included. \<^verbatim>\<open>DISPLAY_LINK\<close> and
  \<^verbatim>\<open>PRODUCT_CARD\<close> directives accumulate: a text made of well-formed directives, each
  followed by text without an opening bracket, gives one record per directive, in the
  order of the text.
\<close>

theorem first_occurrence_kept:
  "(CHR ''['' \<notin> set pre \<and> dropWhile isspace x \<noteq> [] \<and> CHR '']'' \<notin> set x \<longrightarrow>
      comparison_data (process_response_for_enhanced_features
        (pre @ ''[COMPARE_PRODUCTS:'' @ x @ '']'' @ rest)) = Some (dropWhile isspace x))
   \<and> (CHR ''['' \<notin> set pre \<and> dropWhile isspace n \<noteq> [] \<and> dropWhile isspace u \<noteq> []
        \<and> dropWhile isspace p \<noteq> [] \<and> CHR ''|'' \<notin> set n \<and> CHR ''|'' \<notin> set u \<and> CHR '']'' \<notin> set p \<longrightarrow>
      purchase_intent_data (process_response_for_enhanced_features
        (pre @ ''[PURCHASE_INTENT:'' @ n @ ''|'' @ u @ ''|'' @ p @ '']'' @ rest))
      = Some \<lparr> pi_product_name = strip n, pi_url = strip u, pi_price = strip p \<rparr>)
   \<and> (CHR ''['' \<notin> set pre \<and> (\<forall>item\<in>set links. link_ok (fst item) \<and> CHR ''['' \<notin> set (snd item)) \<longrightarrow>
      links_to_display (process_response_for_enhanced_features
        (pre @ concat (map (\<lambda>item. link_directive (fst item) @ snd item) links)))
      = map (\<lambda>item. stripped_link (fst item)) links)
   \<and> (CHR ''['' \<notin> set pre \<and> (\<forall>item\<in>set cards. card_ok (fst item) \<and> CHR ''['' \<notin> set (snd item)) \<longrightarrow>
      product_cards (process_response_for_enhanced_features
        (pre @ concat (map (\<lambda>item. card_directive (fst item) @ snd item) cards)))
      = map (\<lambda>item. stripped_card (fst item)) cards)"
proof (intro conjI impI)
  assume "CHR ''['' \<notin> set pre \<and> dropWhile isspace x \<noteq> [] \<and> CHR '']'' \<notin> set x"
  then have "findall compare_products_pattern (pre @ ''[COMPARE_PRODUCTS:'' @ x @ '']'' @ rest)
       = [dropWhile isspace x] # findall compare_products_pattern rest"
    by (intro findall_compare_first) simp_all
  then show "comparison_data (process_response_for_enhanced_features
        (pre @ ''[COMPARE_PRODUCTS:'' @ x @ '']'' @ rest)) = Some (dropWhile isspace x)"
    by (simp add: process_response_for_enhanced_features_def Let_def grp_def del: findall.simps)
next
  assume "CHR ''['' \<notin> set pre \<and> dropWhile isspace n \<noteq> [] \<and> dropWhile isspace u \<noteq> []
        \<and> dropWhile isspace p \<noteq> [] \<and> CHR ''|'' \<notin> set n \<and> CHR ''|'' \<notin> set u \<and> CHR '']'' \<notin> set p"
  then have "findall purchase_intent_pattern (pre @ ''[PURCHASE_INTENT:'' @ n @ ''|'' @ u @ ''|'' @ p @ '']'' @ rest)
       = [dropWhile isspace n, dropWhile isspace u, dropWhile isspace p]
         # findall purchase_intent_pattern rest"
    by (intro findall_purchase_first) simp_all
  then show "purchase_intent_data (process_response_for_enhanced_features
        (pre @ ''[PURCHASE_INTENT:'' @ n @ ''|'' @ u @ ''|'' @ p @ '']'' @ rest))
      = Some \<lparr> pi_product_name = strip n, pi_url = strip u, pi_price = strip p \<rparr>"
    by (simp add: process_response_for_enhanced_features_def Let_def grp_def intent_record_def
        strip_dropWhile del: findall.simps)
next
  assume a: "CHR ''['' \<notin> set pre \<and> (\<forall>item\<in>set links. link_ok (fst item) \<and> CHR ''['' \<notin> set (snd item))"
  then have g: "CHR ''['' \<notin> set pre"
    and i: "\<forall>item\<in>set links. link_ok (fst item) \<and> CHR ''['' \<notin> set (snd item)"
    by simp_all
  have "findall display_link_pattern (pre @ concat (map (\<lambda>item. link_directive (fst item) @ snd item) links))
      = findall display_link_pattern (concat (map (\<lambda>item. link_directive (fst item) @ snd item) links))"
    using g by (rule findall_gap)
  also have "\<dots> = map (\<lambda>item. [dropWhile isspace (link_name (fst item)), dropWhile isspace (link_url (fst item))]) links"
    using i by (rule findall_links)
  finally have "findall display_link_pattern (pre @ concat (map (\<lambda>item. link_directive (fst item) @ snd item) links))
      = map (\<lambda>item. [dropWhile isspace (link_name (fst item)), dropWhile isspace (link_url (fst item))]) links" .
  then show "links_to_display (process_response_for_enhanced_features
        (pre @ concat (map (\<lambda>item. link_directive (fst item) @ snd item) links)))
      = map (\<lambda>item. stripped_link (fst item)) links"
    by (simp add: process_response_for_enhanced_features_def Let_def link_record_groups
        del: findall.simps)
next
  assume a: "CHR ''['' \<notin> set pre \<and> (\<forall>item\<in>set cards. card_ok (fst item) \<and> CHR ''['' \<notin> set (snd item))"
  then have g: "CHR ''['' \<notin> set pre"
    and i: "\<forall>item\<in>set cards. card_ok (fst item) \<and> CHR ''['' \<notin> set (snd item)"
    by simp_all
  have "findall product_card_pattern (pre @ concat (map (\<lambda>item. card_directive (fst item) @ snd item) cards))
      = findall product_card_pattern (concat (map (\<lambda>item. card_directive (fst item) @ snd item) cards))"
    using g by (rule findall_gap)
  also have "\<dots> = map (\<lambda>item. card_groups (fst item)) cards"
    using i by (rule findall_cards)
  finally have "findall product_card_pattern (pre @ concat (map (\<lambda>item. card_directive (fst item) @ snd item) cards))
      = map (\<lambda>item. card_groups (fst item)) cards" .
  then show "product_cards (process_response_for_enhanced_features
        (pre @ concat (map (\<lambda>item. card_directive (fst item) @ snd item) cards)))
      = map (\<lambda>item. stripped_card (fst item)) cards"
    by (simp add: process_response_for_enhanced_features_def Let_def card_record_groups
        del: findall.simps)
qed

theorem first_occurrence_kept_witness:
  "comparison_data (process_response_for_enhanced_features
      ''Look: [COMPARE_PRODUCTS: A vs B] and [COMPARE_PRODUCTS: C vs D]'') = Some ''A vs B''
   \<and> purchase_intent_data (process_response_for_enhanced_features
      ''Sure! [PURCHASE_INTENT: Mouse | u1 | $5] [PURCHASE_INTENT: Pad | u2 | $7]'')
     = Some \<lparr> pi_product_name = ''Mouse'', pi_url = ''u1'', pi_price = ''$5'' \<rparr>
   \<and> links_to_display (process_response_for_enhanced_features
      ''See [DISPLAY_LINK: Mouse | u1] and [DISPLAY_LINK: Pad | u2].'')
     = [\<lparr> link_name = ''Mouse'', link_url = ''u1'' \<rparr>, \<lparr> link_name = ''Pad'', link_url = ''u2'' \<rparr>]
   \<and> product_cards (process_response_for_enhanced_features
      ''[PRODUCT_CARD: Mouse|u1|$5|4.5|light|quiet|img] or [PRODUCT_CARD: Pad|u2|$7|4.1|||]'')
     = [\<lparr> card_name = ''Mouse'', card_url = ''u1'', card_price = ''$5'', card_rating = ''4.5'',
          card_feature1 = ''light'', card_feature2 = ''quiet'', card_image_hint = ''img'' \<rparr>,
        \<lparr> card_name = ''Pad'', card_url = ''u2'', card_price = ''$7'', card_rating = ''4.1'',
          card_feature1 = [], card_feature2 = [], card_image_hint = [] \<rparr>]"
proof -
  have c1: "comparison_data (process_response_for_enhanced_features
      ''Look: [COMPARE_PRODUCTS: A vs B] and [COMPARE_PRODUCTS: C vs D]'') = Some ''A vs B''"
    using first_occurrence_kept [where pre = "''Look: ''" and x = "'' A vs B''"
        and rest = "'' and [COMPARE_PRODUCTS: C vs D]''"]
    by (simp add: isspace_def)
  have c2: "purchase_intent_data (process_response_for_enhanced_features
      ''Sure! [PURCHASE_INTENT: Mouse | u1 | $5] [PURCHASE_INTENT: Pad | u2 | $7]'')
     = Some \<lparr> pi_product_name = ''Mouse'', pi_url = ''u1'', pi_price = ''$5'' \<rparr>"
    using first_occurrence_kept [where pre = "''Sure! ''" and n = "'' Mouse ''" and u = "'' u1 ''"
        and p = "'' $5''" and rest = "'' [PURCHASE_INTENT: Pad | u2 | $7]''"]
    by (simp add: isspace_def strip_def)
  have c3: "links_to_display (process_response_for_enhanced_features
      ''See [DISPLAY_LINK: Mouse | u1] and [DISPLAY_LINK: Pad | u2].'')
     = [\<lparr> link_name = ''Mouse'', link_url = ''u1'' \<rparr>, \<lparr> link_name = ''Pad'', link_url = ''u2'' \<rparr>]"
    using first_occurrence_kept [where pre = "''See ''" and links =
        "[(\<lparr> link_name = '' Mouse '', link_url = '' u1'' \<rparr>, '' and ''),
          (\<lparr> link_name = '' Pad '', link_url = '' u2'' \<rparr>, ''.'')]"]
    by (simp add: isspace_def strip_def link_ok_def link_directive_def stripped_link_def)
  have c4: "product_cards (process_response_for_enhanced_features
      ''[PRODUCT_CARD: Mouse|u1|$5|4.5|light|quiet|img] or [PRODUCT_CARD: Pad|u2|$7|4.1|||]'')
     = [\<lparr> card_name = ''Mouse'', card_url = ''u1'', card_price = ''$5'', card_rating = ''4.5'',
          card_feature1 = ''light'', card_feature2 = ''quiet'', card_image_hint = ''img'' \<rparr>,
        \<lparr> card_name = ''Pad'', card_url = ''u2'', card_price = ''$7'', card_rating = ''4.1'',
          card_feature1 = [], card_feature2 = [], card_image_hint = [] \<rparr>]"
    using first_occurrence_kept [where pre = "[]" and cards =
        "[(\<lparr> card_name = '' Mouse'', card_url = ''u1'', card_price = ''$5'', card_rating = ''4.5'',
            card_feature1 = ''light'', card_feature2 = ''quiet'', card_image_hint = ''img'' \<rparr>, '' or ''),
          (\<lparr> card_name = '' Pad'', card_url = ''u2'', card_price = ''$7'', card_rating = ''4.1'',
            card_feature1 = [], card_feature2 = [], card_image_hint = [] \<rparr>, [])]"]
    by (simp add: isspace_def strip_def card_ok_def card_directive_def stripped_card_def)
  show ?thesis
    using c1 c2 c3 c4 by (intro conjI)
qed

text \<open>
  Claim C1 as stated fails: of two \<^verbatim>\<open>COMPARE_PRODUCTS\<close> directives the parser keeps the
  first, not the last.
\<close>

theorem last_occurrence_counterexample:
  "findall compare_products_pattern ''Look: [COMPARE_PRODUCTS: A vs B] and [COMPARE_PRODUCTS: C vs D]''
     = [[''A vs B''], [''C vs D'']]
   \<and> comparison_data (process_response_for_enhanced_features
      ''Look: [COMPARE_PRODUCTS: A vs B] and [COMPARE_PRODUCTS: C vs D]'') = Some ''A vs B''"
  by code_simp

lemma first_some_member:
  "first_some (map f ns) = Some res \<Longrightarrow> \<exists>n\<in>set ns. f n = Some res"
proof (induction ns)
  case Nil
  then show ?case by simp
next
  case (Cons n ns)
  then show ?case by (cases "f n") auto
qed

lemma count_list_drop: "count_list (drop n s) d \<le> count_list s d"
proof -
  have "count_list (take n s @ drop n s) d = count_list (take n s) d + count_list (drop n s) d"
    by (rule count_list_append)
  then show ?thesis by simp
qed

lemma rmatch_literal_count:
  "rmatch r s cur g = Some res \<Longrightarrow> literal_count d r \<le> count_list s d"
proof (induction r arbitrary: s cur g)
  case Nil
  then show ?case by simp
next
  case (Cons a r)
  show ?case
  proof (cases a)
    case GroupOpen
    with Cons show ?thesis by simp
  next
    case GroupClose
    with Cons show ?thesis by simp
  next
    case (Atom c q)
    let ?k = "length (takeWhile (accepts c) s)"
    from Cons.prems Atom obtain n where n: "n \<in> set (counts q ?k)"
      and m: "rmatch r (drop n s) (map_option (\<lambda>g. g @ take n s) cur) g = Some res"
      by (auto dest: first_some_member)
    from m have le: "literal_count d r \<le> count_list (drop n s) d"
      by (rule Cons.IH)
    show ?thesis
    proof (cases "c = Lit d \<and> q = Once")
      case False
      then have "literal_count d (a # r) = literal_count d r"
        using Atom by auto
      with le count_list_drop [of n s d] show ?thesis by simp
    next
      case True
      with n have k: "1 \<le> ?k" and n1: "n = 1"
        by (auto split: if_splits)
      from k True obtain s' where s: "s = d # s'"
        by (cases s) (auto split: if_splits)
      with le n1 True Atom show ?thesis by simp
    qed
  qed
qed

lemma findall_literal_count:
  "count_list s d < literal_count d r \<Longrightarrow> findall r s = []"
proof (induction s)
  case Nil
  have "rmatch r [] None [] = None"
  proof (cases "rmatch r [] None []")
    case (Some res)
    from rmatch_literal_count [OF this, of d] Nil show ?thesis by simp
  qed simp
  then show ?case by simp
next
  case (Cons c cs)
  have n: "rmatch r (c # cs) None [] = None"
  proof (cases "rmatch r (c # cs) None []")
    case (Some res)
    from rmatch_literal_count [OF this, of d] Cons.prems show ?thesis by simp
  qed simp
  from Cons.prems have "count_list cs d < literal_count d r"
    by (simp split: if_splits)
  then have "findall r cs = []"
    by (rule Cons.IH)
  with n show ?case by simp
qed

lemma card_pattern_bars: "literal_count CHR ''|'' product_card_pattern = 6"
  by (simp add: product_card_pattern_def lits_def group_def)

lemma few_bars_no_card:
  assumes "count_list t CHR ''|'' < 6"
  shows "product_cards (process_response_for_enhanced_features t) = []"
proof -
  from assms have "findall product_card_pattern t = []"
    by (intro findall_literal_count [where d = "CHR ''|''"]) (simp add: card_pattern_bars)
  then show ?thesis
    by (simp add: process_response_for_enhanced_features_def Let_def del: findall.simps)
qed

lemma card_three_empty_fields:
  assumes "CHR ''['' \<notin> set pre" "CHR ''['' \<notin> set post"
    and "dropWhile isspace n \<noteq> []" "u \<noteq> []" "p \<noteq> []" "r \<noteq> []"
    and "CHR ''|'' \<notin> set n" "CHR ''|'' \<notin> set u" "CHR ''|'' \<notin> set p" "CHR ''|'' \<notin> set r"
  shows "product_cards (process_response_for_enhanced_features
           (pre @ ''[PRODUCT_CARD:'' @ n @ ''|'' @ u @ ''|'' @ p @ ''|'' @ r @ ''|||]'' @ post))
       = [\<lparr> card_name = strip n, card_url = strip u, card_price = strip p, card_rating = strip r,
            card_feature1 = [], card_feature2 = [], card_image_hint = [] \<rparr>]"
proof -
  define c where "c = \<lparr> card_name = n, card_url = u, card_price = p, card_rating = r,
      card_feature1 = [], card_feature2 = [], card_image_hint = [] \<rparr>"
  have ok: "\<forall>item\<in>set [(c, post)]. card_ok (fst item) \<and> CHR ''['' \<notin> set (snd item)"
    using assms by (simp add: card_ok_def c_def)
  have "findall product_card_pattern (pre @ concat (map (\<lambda>item. card_directive (fst item) @ snd item) [(c, post)]))
      = findall product_card_pattern (concat (map (\<lambda>item. card_directive (fst item) @ snd item) [(c, post)]))"
    using assms(1) by (rule findall_gap)
  also have "\<dots> = map (\<lambda>item. card_groups (fst item)) [(c, post)]"
    using ok by (rule findall_cards)
  finally have "findall product_card_pattern (pre @ card_directive c @ post) = [card_groups c]"
    by simp
  then have "product_cards (process_response_for_enhanced_features (pre @ card_directive c @ post))
      = [stripped_card c]"
    by (simp add: process_response_for_enhanced_features_def Let_def card_record_groups
        del: findall.simps)
  then show ?thesis
    by (simp add: c_def card_directive_def stripped_card_def strip_nil)
qed

text \<open>
  Claim C4, as the code has it. The last three fields of a \<^verbatim>\<open>PRODUCT_CARD\<close> directive may
  be empty, but the card pattern asks for all six bars. A directive with a name that is
  not blank, a url, a price and a rating that are not empty, and then three empty fields
  between their bars, standing in text without other opening brackets, is extracted as
  one card whose last three fields are the empty string. And a text with fewer than six
  bars in all yields no card, whatever directives it holds.
\<close>

theorem card_empty_fields:
  assumes "CHR ''['' \<notin> set pre" "CHR ''['' \<notin> set post"
    and "dropWhile isspace n \<noteq> []" "u \<noteq> []" "p \<noteq> []" "r \<noteq> []"
    and "CHR ''|'' \<notin> set n" "CHR ''|'' \<notin> set u" "CHR ''|'' \<notin> set p" "CHR ''|'' \<notin> set r"
  shows "product_cards (process_response_for_enhanced_features
           (pre @ ''[PRODUCT_CARD:'' @ n @ ''|'' @ u @ ''|'' @ p @ ''|'' @ r @ ''|||]'' @ post))
       = [\<lparr> card_name = strip n, card_url = strip u, card_price = strip p, card_rating = strip r,
            card_feature1 = [], card_feature2 = [], card_image_hint = [] \<rparr>]
       \<and> (\<forall>t. count_list t CHR ''|'' < 6 \<longrightarrow>
              product_cards (process_response_for_enhanced_features t) = [])"
  using card_three_empty_fields [OF assms] few_bars_no_card by blast

theorem card_empty_fields_witness:
  "product_cards (process_response_for_enhanced_features
      ''Try this: [PRODUCT_CARD: Mouse|https://a.co/d|$19.99|4.5|||] ok?'')
   = [\<lparr> card_name = ''Mouse'', card_url = ''https://a.co/d'', card_price = ''$19.99'',
        card_rating = ''4.5'', card_feature1 = [], card_feature2 = [], card_image_hint = [] \<rparr>]
   \<and> count_list ''Or this: [PRODUCT_CARD: Lamp|https://a.co/l|$5|4.0|soft light] ok?'' CHR ''|'' = 4
   \<and> product_cards (process_response_for_enhanced_features
      ''Or this: [PRODUCT_CARD: Lamp|https://a.co/l|$5|4.0|soft light] ok?'') = []"
proof -
  note t = card_empty_fields [where pre = "''Try this: ''" and post = "'' ok?''" and n = "'' Mouse''"
      and u = "''https://a.co/d''" and p = "''$19.99''" and r = "''4.5''"]
  have a: "product_cards (process_response_for_enhanced_features
      ''Try this: [PRODUCT_CARD: Mouse|https://a.co/d|$19.99|4.5|||] ok?'')
   = [\<lparr> card_name = ''Mouse'', card_url = ''https://a.co/d'', card_price = ''$19.99'',
        card_rating = ''4.5'', card_feature1 = [], card_feature2 = [], card_image_hint = [] \<rparr>]"
    using t by (simp add: isspace_def strip_def)
  have b: "count_list ''Or this: [PRODUCT_CARD: Lamp|https://a.co/l|$5|4.0|soft light] ok?'' CHR ''|'' = 4"
    by simp
  have c: "product_cards (process_response_for_enhanced_features
      ''Or this: [PRODUCT_CARD: Lamp|https://a.co/l|$5|4.0|soft light] ok?'') = []"
    using t b by (simp add: isspace_def)
  show ?thesis
    using a b c by (intro conjI)
qed

text \<open>
  Claim C4 as stated fails: a directive that leaves the last three fields out, bars
  included, yields no card.
\<close>

theorem card_missing_fields_counterexample:
  "product_cards (process_response_for_enhanced_features
      ''Try this: [PRODUCT_CARD: Mouse|https://a.co/d|$19.99|4.5] ok?'') = []"
  by code_simp

section \<open>Voice text optimizer\<close>

lemma length_split_char: "length (split [c] acc s) = Suc (count_list s c)"
  by (induction s arbitrary: acc) simp_all

lemma split_char_pieces: "c \<notin> set acc \<Longrightarrow> \<forall>p\<in>set (split [c] acc s). c \<notin> set p"
proof (induction s arbitrary: acc)
  case Nil
  then show ?case by simp
next
  case (Cons d ds)
  show ?case
  proof (cases "d = c")
    case True
    have "\<forall>p\<in>set (split [c] [] ds). c \<notin> set p"
      by (rule Cons.IH) simp
    with True Cons.prems show ?thesis by simp
  next
    case False
    then have "c \<notin> set (acc @ [d])"
      using Cons.prems by simp
    then have "\<forall>p\<in>set (split [c] (acc @ [d]) ds). c \<notin> set p"
      by (rule Cons.IH)
    with False show ?thesis by simp
  qed
qed

lemma count_list_zero: "c \<notin> set xs \<Longrightarrow> count_list xs c = 0"
  by (induction xs) auto

lemma count_list_app: "count_list (xs @ ys) c = count_list xs c + count_list ys c"
  by (induction xs) auto

lemma count_list_rev_eq: "count_list (rev xs) c = count_list xs c"
  by (induction xs) (auto simp: count_list_app)

lemma count_list_dropWhile: "\<not> P c \<Longrightarrow> count_list (dropWhile P xs) c = count_list xs c"
  by (induction xs) auto

lemma count_strip: "\<not> isspace c \<Longrightarrow> count_list (strip s) c = count_list s c"
  by (simp add: strip_def count_list_rev_eq count_list_dropWhile)

lemma dropWhile_rstrip:
  assumes "xs = [] \<or> \<not> P (hd xs)"
  shows "dropWhile P (rev (dropWhile P (rev xs))) = rev (dropWhile P (rev xs))"
proof -
  define u where "u = rev (dropWhile P (rev xs))"
  define v where "v = rev (takeWhile P (rev xs))"
  have "rev xs = takeWhile P (rev xs) @ dropWhile P (rev xs)"
    by simp
  then have "rev (rev xs) = rev (takeWhile P (rev xs) @ dropWhile P (rev xs))"
    by (rule arg_cong)
  then have xs: "xs = u @ v"
    by (simp only: rev_rev_ident rev_append u_def v_def)
  have "dropWhile P u = u"
  proof (cases u)
    case Nil
    then show ?thesis by simp
  next
    case (Cons a w)
    with xs have "hd xs = a" "xs \<noteq> []"
      by simp_all
    with assms have "\<not> P a"
      by auto
    with Cons show ?thesis by simp
  qed
  then show ?thesis
    by (simp only: u_def)
qed

lemma strip_idem: "strip (strip s) = strip s"
proof -
  define t where "t = dropWhile isspace s"
  have "t = [] \<or> \<not> isspace (hd t)"
    unfolding t_def by (metis hd_dropWhile)
  then have "dropWhile isspace (rev (dropWhile isspace (rev t))) = rev (dropWhile isspace (rev t))"
    by (rule dropWhile_rstrip)
  then have "strip (rev (dropWhile isspace (rev t))) = rev (dropWhile isspace (rev t))"
    by (simp add: strip_def)
  then show ?thesis
    by (simp only: strip_def t_def)
qed

lemma truncate_few: "count_list y CHR ''.'' \<le> 3 \<Longrightarrow> truncate_sentences y = y"
  by (simp add: truncate_sentences_def length_split_char)

lemma count_truncate: "count_list (truncate_sentences z) CHR ''.'' \<le> 3"
proof (cases "length (split ''.'' [] z) > 4")
  case False
  then show ?thesis
    by (simp add: truncate_sentences_def length_split_char)
next
  case True
  obtain a b c rest where ss: "split ''.'' [] z = a # b # c # rest"
  proof -
    from True have "Suc (Suc (Suc 0)) \<le> length (split ''.'' [] z)"
      by simp
    then show ?thesis
      using that by (auto simp: Suc_le_length_iff)
  qed
  have "CHR ''.'' \<notin> set a" "CHR ''.'' \<notin> set b" "CHR ''.'' \<notin> set c"
    using split_char_pieces [of "CHR ''.''" "[]" z] ss by simp_all
  then have "count_list a CHR ''.'' = 0" "count_list b CHR ''.'' = 0" "count_list c CHR ''.'' = 0"
    by (simp_all add: count_list_zero)
  then show ?thesis
    using True ss by (simp add: truncate_sentences_def count_list_app)
qed

lemma strip_truncate_idem:
  "strip (truncate_sentences (strip (truncate_sentences z))) = strip (truncate_sentences z)"
proof -
  have "count_list (strip (truncate_sentences z)) CHR ''.'' \<le> 3"
    using count_truncate [of z] by (simp add: count_strip isspace_def)
  then have "truncate_sentences (strip (truncate_sentences z)) = strip (truncate_sentences z)"
    by (rule truncate_few)
  then show ?thesis
    by (simp add: strip_idem)
qed

text \<open>
  Claim C3, as the code has it. Truncation and trimming never change text that is
  already optimized: whenever the first four steps (the line filter, the directive
  re-pass and the replacements) leave \<open>optimize_for_voice x\<close> as it is, a second run of
  the optimizer returns it unchanged.
\<close>

theorem optimize_twice:
  assumes "apply_replacements (strip_formats (join '' '' (optimized_lines (optimize_for_voice x))))
           = optimize_for_voice x"
  shows "optimize_for_voice (optimize_for_voice x) = optimize_for_voice x"
proof -
  have "optimize_for_voice (optimize_for_voice x)
      = strip (truncate_sentences (optimize_for_voice x))"
    using assms by (simp add: optimize_for_voice_def)
  also have "\<dots> = optimize_for_voice x"
    by (simp add: optimize_for_voice_def strip_truncate_idem)
  finally show ?thesis .
qed

theorem optimize_twice_witness:
  "optimize_for_voice ''I apologize. One. Two. Three. Four. Five.'' = ''Sorry about that.  One.  Two.''
   \<and> apply_replacements (strip_formats (join '' '' (optimized_lines ''Sorry about that.  One.  Two.'')))
       = ''Sorry about that.  One.  Two.''
   \<and> optimize_for_voice ''Sorry about that.  One.  Two.'' = ''Sorry about that.  One.  Two.''"
proof -
  have o: "optimize_for_voice ''I apologize. One. Two. Three. Four. Five.'' = ''Sorry about that.  One.  Two.''"
    by code_simp
  have h: "apply_replacements (strip_formats (join '' '' (optimized_lines ''Sorry about that.  One.  Two.'')))
       = ''Sorry about that.  One.  Two.''"
    by code_simp
  show ?thesis
    using optimize_twice [of "''I apologize. One. Two. Three. Four. Five.''"] o h
    by simp
qed

text \<open>
  Claim C3 as stated fails: deleting \<^verbatim>\<open>http\<close> from \<^verbatim>\<open>hhttpttp\<close> leaves \<^verbatim>\<open>http\<close>,
  which a second run deletes.
\<close>

theorem optimize_not_idempotent_counterexample:
  "optimize_for_voice ''hhttpttp'' = ''http''
   \<and> optimize_for_voice (optimize_for_voice ''hhttpttp'') = []"
  by code_simp

text \<open>
  Claim C2 fails on the code: the replacements run after both directive passes, and
  deleting \<^verbatim>\<open>http\<close> can put a directive together. Here the spoken text that the parser
  returns matches the \<^verbatim>\<open>DISPLAY_LINK\<close> pattern.
\<close>

theorem directive_in_spoken_text:
  "spoken_text (process_response_for_enhanced_features
      ''Here it is! [DISPLAY_LINhttpK: Wireless Mouse | B01]'')
     = ''Here it is! [DISPLAY_LINK: Wireless Mouse | B01]''
   \<and> search display_link_pattern ''Here it is! [DISPLAY_LINK: Wireless Mouse | B01]''
     = Some [''Wireless Mouse '', ''B01'']"
  by code_simp

end
